theory Spec2Isabelle
  imports Main
begin

section \<open>Draft text: characters and string primitives\<close>

text \<open>
  The draft, the question and every cell are JavaScript strings.  They are modelled as
  \<^typ>\<open>string\<close>.  Case mapping and the class \<open>\w\<close> act on the ASCII range; the white
  space of \<open>\s\<close> and of \<open>trim\<close> is the ASCII white space and the no-break space.  Every
  other character is its own upper and lower case, is no white space and is no word
  character.
\<close>

definition lowerLetters :: string where
  "lowerLetters = ''abcdefghijklmnopqrstuvwxyz''"

definition upperLetters :: string where
  "upperLetters = ''ABCDEFGHIJKLMNOPQRSTUVWXYZ''"

definition digitChars :: string where
  "digitChars = ''0123456789''"

definition toUpperChar :: "char \<Rightarrow> char" where
  "toUpperChar c = (case map_of (zip lowerLetters upperLetters) c of Some u \<Rightarrow> u | None \<Rightarrow> c)"

definition toLowerChar :: "char \<Rightarrow> char" where
  "toLowerChar c = (case map_of (zip upperLetters lowerLetters) c of Some l \<Rightarrow> l | None \<Rightarrow> c)"

definition toUpperCase :: "string \<Rightarrow> string" where
  "toUpperCase s = map toUpperChar s"

definition toLowerCase :: "string \<Rightarrow> string" where
  "toLowerCase s = map toLowerChar s"

text \<open>
  \<open>\s\<close>: tab, line feed, vertical tab, form feed, carriage return, space and no-break
  space.
\<close>

definition isSpace :: "char \<Rightarrow> bool" where
  "isSpace c =
     (c \<in> set [CHR 0x09, CHR 0x0A, CHR 0x0B, CHR 0x0C, CHR 0x0D, CHR '' '', CHR 0xA0])"

text \<open>\<open>\w\<close>: letters, digits and the underscore.\<close>

definition isWord :: "char \<Rightarrow> bool" where
  "isWord c = (c \<in> set (lowerLetters @ upperLetters @ digitChars @ ''_''))"

text \<open>The line terminators that \<open>.\<close> does not match.\<close>

definition isLineTerminator :: "char \<Rightarrow> bool" where
  "isLineTerminator c = (c \<in> set [CHR 0x0A, CHR 0x0D])"

text \<open>\<open>String.prototype.trim\<close>.\<close>

definition trim :: "string \<Rightarrow> string" where
  "trim s = rev (dropWhile isSpace (rev (dropWhile isSpace s)))"

fun startsWith :: "string \<Rightarrow> string \<Rightarrow> bool" where
  "startsWith s [] = True"
| "startsWith [] (p # ps) = False"
| "startsWith (c # cs) (p # ps) = (c = p \<and> startsWith cs ps)"

text \<open>\<open>String.prototype.includes\<close>: the argument occurs somewhere in the string.\<close>

fun includesStr :: "string \<Rightarrow> string \<Rightarrow> bool" where
  "includesStr [] sub = (sub = [])"
| "includesStr (c # cs) sub = (startsWith (c # cs) sub \<or> includesStr cs sub)"

text \<open>\<open>String.prototype.split\<close> with a one-character string separator.\<close>

fun splitOn :: "char \<Rightarrow> string \<Rightarrow> string list" where
  "splitOn d [] = [[]]"
| "splitOn d (c # cs) =
     (if c = d then [] # splitOn d cs
      else (case splitOn d cs of [] \<Rightarrow> [[c]] | p # ps \<Rightarrow> (c # p) # ps))"


section \<open>Regular expressions\<close>

text \<open>
  The regular expressions of the program are kept as syntax trees and run by one
  backtracking matcher, so that each pattern below can be compared with the literal in
  the source.  Only the constructs that the program uses are present; a quantifier always
  applies to a character class, as it does in every pattern of the program.

  \<^item> \<open>Lit\<close>: a run of literal characters;
  \<^item> \<open>Cls\<close>: one character of a class;
  \<^item> \<open>Star\<close>, \<open>Plus\<close>: greedy \<open>*\<close> and \<open>+\<close>; \<open>StarLazy\<close>: \<open>*?\<close>;
  \<^item> \<open>Seq\<close>, \<open>Alt\<close>: concatenation and \<open>|\<close>;
  \<^item> \<open>Grp n\<close>: the capturing group number \<open>n\<close> (a group \<open>(?:...)\<close> is not marked);
  \<^item> \<open>NotAhead\<close>: the negative lookahead \<open>(?!...)\<close>;
  \<^item> \<open>Eot\<close>: \<open>$\<close> without the multiline flag, the end of the text.
\<close>

datatype cclass =
    Word
  | Space
  | AnyChar
  | Dot
  | OneOf string
  | NoneOf string

datatype regex =
    Lit string
  | Cls cclass
  | Star cclass
  | StarLazy cclass
  | Plus cclass
  | Seq regex regex
  | Alt regex regex
  | Grp nat regex
  | NotAhead regex
  | Eot

fun cat :: "regex list \<Rightarrow> regex" where
  "cat [] = Lit []"
| "cat [r] = r"
| "cat (r # rs) = Seq r (cat rs)"

fun alts :: "regex list \<Rightarrow> regex" where
  "alts [] = NotAhead (Lit [])"
| "alts [r] = r"
| "alts (r # rs) = Alt r (alts rs)"

text \<open>With the flag \<open>i\<close> two characters are compared after mapping both to upper case.\<close>

definition canon :: "bool \<Rightarrow> char \<Rightarrow> char" where
  "canon i c = (if i then toUpperChar c else c)"

fun inClass :: "bool \<Rightarrow> cclass \<Rightarrow> char \<Rightarrow> bool" where
  "inClass i Word c = isWord c"
| "inClass i Space c = isSpace c"
| "inClass i AnyChar c = True"
| "inClass i Dot c = (\<not> isLineTerminator c)"
| "inClass i (OneOf cs) c = (canon i c \<in> set (map (canon i) cs))"
| "inClass i (NoneOf cs) c = (canon i c \<notin> set (map (canon i) cs))"

fun litMatch :: "bool \<Rightarrow> string \<Rightarrow> string \<Rightarrow> string option" where
  "litMatch i [] s = Some s"
| "litMatch i (p # ps) [] = None"
| "litMatch i (p # ps) (c # cs) = (if canon i p = canon i c then litMatch i ps cs else None)"

text \<open>
  The remainders that a quantified class can leave, in the order in which backtracking
  tries them: a greedy quantifier tries the longest run first, a lazy one the shortest.
\<close>

fun starG :: "(char \<Rightarrow> bool) \<Rightarrow> string \<Rightarrow> string list" where
  "starG p [] = [[]]"
| "starG p (c # cs) = (if p c then starG p cs @ [c # cs] else [c # cs])"

fun starL :: "(char \<Rightarrow> bool) \<Rightarrow> string \<Rightarrow> string list" where
  "starL p [] = [[]]"
| "starL p (c # cs) = (c # cs) # (if p c then starL p cs else [])"

fun plusG :: "(char \<Rightarrow> bool) \<Rightarrow> string \<Rightarrow> string list" where
  "plusG p [] = []"
| "plusG p (c # cs) = (if p c then starG p cs else [])"

type_synonym captures = "nat \<rightharpoonup> string"

text \<open>
  \<open>ms i r s caps\<close> lists every way in which \<open>r\<close> matches a prefix of \<open>s\<close>, as the
  remainder of \<open>s\<close> with the captures made so far, in the order in which a backtracking
  matcher finds them.  The head of the list is the match that JavaScript reports.
\<close>

fun ms :: "bool \<Rightarrow> regex \<Rightarrow> string \<Rightarrow> captures \<Rightarrow> (string \<times> captures) list" where
  "ms i (Lit l) s caps = (case litMatch i l s of None \<Rightarrow> [] | Some rest \<Rightarrow> [(rest, caps)])"
| "ms i (Cls k) s caps =
     (case s of [] \<Rightarrow> [] | c # cs \<Rightarrow> if inClass i k c then [(cs, caps)] else [])"
| "ms i (Star k) s caps = map (\<lambda>rest. (rest, caps)) (starG (inClass i k) s)"
| "ms i (StarLazy k) s caps = map (\<lambda>rest. (rest, caps)) (starL (inClass i k) s)"
| "ms i (Plus k) s caps = map (\<lambda>rest. (rest, caps)) (plusG (inClass i k) s)"
| "ms i (Seq a b) s caps = concat (map (\<lambda>(rest, caps'). ms i b rest caps') (ms i a s caps))"
| "ms i (Alt a b) s caps = ms i a s caps @ ms i b s caps"
| "ms i (Grp n a) s caps =
     map (\<lambda>(rest, caps'). (rest, caps'(n \<mapsto> take (length s - length rest) s))) (ms i a s caps)"
| "ms i (NotAhead a) s caps = (if ms i a s caps = [] then [(s, caps)] else [])"
| "ms i Eot s caps = (if s = [] then [(s, caps)] else [])"

text \<open>A match: element 0 of the JavaScript match array and its numbered groups.\<close>

record rmatch =
  whole :: string
  groups :: captures

text \<open>The match that starts at the first character of \<open>s\<close>, if there is one.\<close>

definition matchAt :: "bool \<Rightarrow> regex \<Rightarrow> string \<Rightarrow> rmatch option" where
  "matchAt i r s =
     (case ms i r s Map.empty of
        [] \<Rightarrow> None
      | (rest, caps) # _ \<Rightarrow> Some \<lparr>whole = take (length s - length rest) s, groups = caps\<rparr>)"

text \<open>
  \<open>RegExp.prototype.exec\<close> of a pattern without the global flag, and so
  \<open>String.prototype.match\<close>: the start positions are tried from left to right, the end of
  the text included.
\<close>

fun exec :: "bool \<Rightarrow> regex \<Rightarrow> string \<Rightarrow> rmatch option" where
  "exec i r [] = matchAt i r []"
| "exec i r (c # cs) =
     (case matchAt i r (c # cs) of Some m \<Rightarrow> Some m | None \<Rightarrow> exec i r cs)"

text \<open>\<open>RegExp.prototype.test\<close> of a pattern without the global flag.\<close>

definition test :: "bool \<Rightarrow> regex \<Rightarrow> string \<Rightarrow> bool" where
  "test i r s = (exec i r s \<noteq> None)"

text \<open>
  \<open>String.prototype.matchAll\<close> with the global flag.  The counter is the number of
  characters that the previous match still covers, that is how far \<open>lastIndex\<close> is ahead
  of the scan; after an empty match the scan moves on by one character.
\<close>

fun matchAllFrom :: "bool \<Rightarrow> regex \<Rightarrow> nat \<Rightarrow> string \<Rightarrow> rmatch list" where
  "matchAllFrom i r k [] =
     (if k = 0 then (case matchAt i r [] of None \<Rightarrow> [] | Some m \<Rightarrow> [m]) else [])"
| "matchAllFrom i r (Suc k) (c # cs) = matchAllFrom i r k cs"
| "matchAllFrom i r 0 (c # cs) =
     (case matchAt i r (c # cs) of
        None \<Rightarrow> matchAllFrom i r 0 cs
      | Some m \<Rightarrow> m # matchAllFrom i r (length (whole m) - 1) cs)"

definition matchAll :: "bool \<Rightarrow> regex \<Rightarrow> string \<Rightarrow> rmatch list" where
  "matchAll i r s = matchAllFrom i r 0 s"

text \<open>
  \<open>String.prototype.replace\<close> with a global pattern and a replacement text without
  \<open>$\<close> patterns.
\<close>

fun replaceAllFrom :: "bool \<Rightarrow> regex \<Rightarrow> string \<Rightarrow> nat \<Rightarrow> string \<Rightarrow> string" where
  "replaceAllFrom i r new k [] =
     (if k = 0 then (case matchAt i r [] of None \<Rightarrow> [] | Some m \<Rightarrow> new) else [])"
| "replaceAllFrom i r new (Suc k) (c # cs) = replaceAllFrom i r new k cs"
| "replaceAllFrom i r new 0 (c # cs) =
     (case matchAt i r (c # cs) of
        None \<Rightarrow> c # replaceAllFrom i r new 0 cs
      | Some m \<Rightarrow>
          if whole m = [] then new @ c # replaceAllFrom i r new 0 cs
          else new @ replaceAllFrom i r new (length (whole m) - 1) cs)"

definition replaceAll :: "bool \<Rightarrow> regex \<Rightarrow> string \<Rightarrow> string \<Rightarrow> string" where
  "replaceAll i r new s = replaceAllFrom i r new 0 s"

text \<open>
  \<open>String.prototype.split\<close> with a pattern without capturing groups.  \<open>acc\<close> is the piece
  collected since the last separator, reversed, and the counter is the number of
  characters of the separator still to drop.  An empty separator match is no split point
  where the current piece is empty.
\<close>

fun splitFrom :: "bool \<Rightarrow> regex \<Rightarrow> string \<Rightarrow> nat \<Rightarrow> string \<Rightarrow> string list" where
  "splitFrom i r acc k [] = [rev acc]"
| "splitFrom i r acc (Suc k) (c # cs) = splitFrom i r acc k cs"
| "splitFrom i r acc 0 (c # cs) =
     (case matchAt i r (c # cs) of
        None \<Rightarrow> splitFrom i r (c # acc) 0 cs
      | Some m \<Rightarrow>
          if whole m = [] then
            (if acc = [] then splitFrom i r [c] 0 cs
             else rev acc # splitFrom i r [c] 0 cs)
          else rev acc # splitFrom i r [] (length (whole m) - 1) cs)"

definition split :: "bool \<Rightarrow> regex \<Rightarrow> string \<Rightarrow> string list" where
  "split i r s =
     (if s = [] then (if matchAt i r [] = None then [[]] else [])
      else splitFrom i r [] 0 s)"


section \<open>SchemaModelBuilder: parseSchema\<close>

datatype js_error = TypeError

record column =
  name :: string
  type :: "string option"

record schema =
  name :: string
  columns :: "column list"

text \<open>\<open>/CREATE\s+TABLE\s+(\w+)\s*\(([\s\S]*)\)/i\<close>\<close>

definition createPattern :: regex where
  "createPattern =
     cat [Lit ''CREATE'', Plus Space, Lit ''TABLE'', Plus Space, Grp 1 (Plus Word),
          Star Space, Lit ''('', Grp 2 (Star AnyChar), Lit '')'']"

text \<open>\<open>/,(?![^(]*\))/\<close>\<close>

definition columnSeparator :: regex where
  "columnSeparator = Seq (Lit '','') (NotAhead (Seq (Star (NoneOf ''('')) (Lit '')'')))"

definition constraintKeywords :: "string list" where
  "constraintKeywords = [''PRIMARY'', ''FOREIGN'', ''CONSTRAINT'', ''KEY'']"

text \<open>
  The function mapped over the fragments.  \<open>parts[0]\<close> of an empty array would be
  \<open>undefined\<close>, which the filter rejects as it rejects the empty string; it is
  represented by the empty string.
\<close>

definition parseColumn :: "string \<Rightarrow> column" where
  "parseColumn col =
     (let parts = split False (Plus Space) (trim col);
          name = (case parts of [] \<Rightarrow> [] | p # _ \<Rightarrow> p);
          type0 = ''TEXT'';
          fullDef = toUpperCase col;
          type1 = (if includesStr fullDef ''INT'' \<or> includesStr fullDef ''NUMBER''
                   then ''Number'' else type0);
          type2 = (if includesStr fullDef ''VARCHAR'' \<or> includesStr fullDef ''CHAR''
                   then ''Text'' else type1)
      in \<lparr>column.name = name, type = Some type2\<rparr>)"

definition keepColumn :: "column \<Rightarrow> bool" where
  "keepColumn c = (column.name c \<noteq> [] \<and> toUpperCase (column.name c) \<notin> set constraintKeywords)"

text \<open>
  \<open>null\<close> is \<open>None\<close>.  Reading a property of a group that took no part in the match
  would raise a \<open>TypeError\<close>.
\<close>

definition parseSchema :: "string \<Rightarrow> js_error + schema option" where
  "parseSchema text =
     (case exec True createPattern text of
        None \<Rightarrow> Inr None
      | Some createMatch \<Rightarrow>
          (case (groups createMatch 1, groups createMatch 2) of
             (Some tableName, Some columnsContent) \<Rightarrow>
               (let columnsRaw = split False columnSeparator columnsContent;
                    parsedCols = filter keepColumn (map parseColumn columnsRaw)
                in Inr (Some \<lparr>schema.name = tableName, columns = parsedCols\<rparr>))
           | _ \<Rightarrow> Inl TypeError))"


section \<open>RowTupleExtractor: parseAllInsertRows\<close>

text \<open>\<open>/VALUES\s*\(([\s\S]*?)\)/gi\<close>\<close>

definition valuesPattern :: regex where
  "valuesPattern =
     cat [Lit ''VALUES'', Star Space, Lit ''('', Grp 1 (StarLazy AnyChar), Lit '')'']"

text \<open>\<open>/['"]/g\<close>\<close>

definition quotePattern :: regex where
  "quotePattern = Cls (OneOf [CHR 0x27, CHR 0x22])"

fun mapE :: "('a \<Rightarrow> 'e + 'b) \<Rightarrow> 'a list \<Rightarrow> 'e + 'b list" where
  "mapE f [] = Inr []"
| "mapE f (x # xs) =
     (case f x of
        Inl e \<Rightarrow> Inl e
      | Inr y \<Rightarrow> (case mapE f xs of Inl e \<Rightarrow> Inl e | Inr ys \<Rightarrow> Inr (y # ys)))"

definition cleanCell :: "string \<Rightarrow> string" where
  "cleanCell val = replaceAll False quotePattern [] (trim val)"

definition rowOfMatch :: "rmatch \<Rightarrow> js_error + string list" where
  "rowOfMatch m =
     (case groups m 1 of
        None \<Rightarrow> Inl TypeError
      | Some content \<Rightarrow> Inr (map cleanCell (splitOn (CHR '','') content)))"

definition parseAllInsertRowsWith :: "regex \<Rightarrow> string \<Rightarrow> js_error + string list list" where
  "parseAllInsertRowsWith pat text = mapE rowOfMatch (matchAll True pat text)"

definition parseAllInsertRows :: "string \<Rightarrow> js_error + string list list" where
  "parseAllInsertRows text = parseAllInsertRowsWith valuesPattern text"

text \<open>
  The other copy of the application has the same function with the pattern
  \<open>/VALUES\s*\(([\s\S]*?)(?:\)|$)/gi\<close>, which also accepts the end of the text in place of
  the closing parenthesis.
\<close>

definition valuesPatternOpen :: regex where
  "valuesPatternOpen =
     cat [Lit ''VALUES'', Star Space, Lit ''('', Grp 1 (StarLazy AnyChar),
          Alt (Lit '')'') Eot]"

definition parseAllInsertRowsOpen :: "string \<Rightarrow> js_error + string list list" where
  "parseAllInsertRowsOpen text = parseAllInsertRowsWith valuesPatternOpen text"


section \<open>TableReferenceDetector\<close>

text \<open>
  \<open>/(?:INSERT\s+INTO|FROM|UPDATE|TABLE)\s+(\w+)/i\<close>: the statement shapes are the
  alternatives of one pattern, each followed by white space and a run of word characters.
\<close>

definition shapePatterns :: "regex list" where
  "shapePatterns =
     [cat [Lit ''INSERT'', Plus Space, Lit ''INTO''], Lit ''FROM'', Lit ''UPDATE'', Lit ''TABLE'']"

definition referenceTail :: regex where
  "referenceTail = Seq (Plus Space) (Grp 1 (Plus Word))"

definition tableRefPattern :: regex where
  "tableRefPattern = Seq (alts shapePatterns) referenceTail"

definition detectTable :: "string \<Rightarrow> rmatch option" where
  "detectTable val = exec True tableRefPattern val"


section \<open>IntentRoadmapGenerator: analyzeQuestion\<close>

text \<open>A roadmap step; \<open>regex\<close> holds the flag \<open>i\<close> and the pattern.\<close>

record step =
  stepId :: nat
  stepText :: string
  regex :: "bool \<times> regex"

text \<open>\<open>step.regex.test(query)\<close>, as the roadmap panel evaluates it.\<close>

definition stepDone :: "step \<Rightarrow> string \<Rightarrow> bool" where
  "stepDone st query = test (fst (regex st)) (snd (regex st)) query"

definition aggregateTrigger :: regex where
  "aggregateTrigger =
     alts [Lit ''minimum'', Lit ''maximum'', Lit ''max'', Lit ''min'', Lit ''avg'',
           Lit ''average'', Lit ''count'', Lit ''sum'']"

definition renameTrigger :: regex where
  "renameTrigger = alts [Lit ''rename'', Lit ''as'', Lit ''title'']"

definition deleteTrigger :: regex where
  "deleteTrigger = alts [Lit ''delete'', Lit ''remove'', Lit ''clear'']"

definition selectTrigger :: regex where
  "selectTrigger = alts [Lit ''list'', Lit ''show'', Lit ''find'', Lit ''select'', Lit ''who'']"

definition filterTrigger :: regex where
  "filterTrigger =
     alts [Lit ''where'', Lit ''scoring'', Lit ''more than'', Lit ''greater'', Lit ''less'',
           Lit ''whose'']"

definition createTrigger :: regex where
  "createTrigger = alts [Lit ''create'', Lit ''new table'', Lit ''make table'']"

definition aggregateSteps :: "step list" where
  "aggregateSteps =
     [\<lparr>stepId = 1, stepText = ''Use Aggregate Function: SELECT MAX(), MIN(), etc.'',
       regex = (True, Grp 1 (alts [Lit ''MAX'', Lit ''MIN'', Lit ''AVG'', Lit ''COUNT'', Lit ''SUM'']))\<rparr>,
      \<lparr>stepId = 2, stepText = ''Specify Source: FROM [Table]'', regex = (True, Lit ''FROM'')\<rparr>]"

definition renameStep :: step where
  "renameStep =
     \<lparr>stepId = 3, stepText = ''Rename columns using AS 'New Name'' @ [CHR 0x27],
      regex = (True, Lit ''AS'')\<rparr>"

definition deleteSteps :: "step list" where
  "deleteSteps =
     [\<lparr>stepId = 1, stepText = ''Start with DELETE FROM [Table]'',
       regex = (True, cat [Lit ''DELETE'', Plus Space, Lit ''FROM''])\<rparr>,
      \<lparr>stepId = 2, stepText = ''Filter using WHERE [Condition]'', regex = (True, Lit ''WHERE'')\<rparr>]"

definition selectSteps :: "step list" where
  "selectSteps =
     [\<lparr>stepId = 1, stepText = ''Start with SELECT [Columns] or *'', regex = (True, Lit ''SELECT'')\<rparr>,
      \<lparr>stepId = 2, stepText = ''Identify Source: FROM [Table]'', regex = (True, Lit ''FROM'')\<rparr>]"

definition filterStep :: step where
  "filterStep =
     \<lparr>stepId = 3, stepText = ''Filter results using WHERE [Condition]'',
      regex = (True, Lit ''WHERE'')\<rparr>"

definition createSteps :: "step list" where
  "createSteps =
     [\<lparr>stepId = 1, stepText = ''Use CREATE TABLE [TableName]'',
       regex = (True, cat [Lit ''CREATE'', Plus Space, Lit ''TABLE''])\<rparr>,
      \<lparr>stepId = 2, stepText = ''Pro-tip: Use 'IF NOT EXISTS' to avoid errors'',
       regex = (True, cat [Lit ''IF'', Plus Space, Lit ''NOT'', Plus Space, Lit ''EXISTS''])\<rparr>,
      \<lparr>stepId = 3, stepText = ''Define columns inside ( )'',
       regex = (True, cat [Lit ''('', Star Dot, Lit '')''])\<rparr>]"

text \<open>The list of steps that \<open>analyzeQuestion\<close> builds from the question.\<close>

definition roadmapFor :: "string \<Rightarrow> step list" where
  "roadmapFor studentQuestion =
     (let q = toLowerCase studentQuestion;
          steps0 = [];
          steps1 =
            (if test False aggregateTrigger q then
               (if test False renameTrigger q then aggregateSteps @ [renameStep]
                else aggregateSteps)
             else if test False deleteTrigger q then deleteSteps
             else if test False selectTrigger q then
               (if test False filterTrigger q then (steps0 @ selectSteps) @ [filterStep]
                else steps0 @ selectSteps)
             else steps0)
      in if test False createTrigger q then createSteps else steps1)"


section \<open>The application state and its handlers\<close>

text \<open>
  What \<open>setActiveSchema\<close> stores: a table with its columns, or, where the registry
  lookup finds a property that every object inherits, the name with that property in
  place of the columns.
\<close>

datatype active = Table schema | Inherited string

record app_state =
  query :: string
  existingData :: "string list list"
  multiRowPreview :: "string list list"
  activeSchema :: "active option"
  studentQuestion :: string
  roadmap :: "step list"

definition analyzeQuestion :: "app_state \<Rightarrow> app_state" where
  "analyzeQuestion st = st\<lparr>roadmap := roadmapFor (studentQuestion st)\<rparr>"

text \<open>
  The own properties of \<open>SCHEMA_REGISTRY\<close>; its columns carry a name only.  A lookup
  with a name that is no own property still finds the properties that every object
  inherits; of these, \<open>constructor\<close> and \<open>__proto__\<close> are written in lower case and so
  can be the lower-case table name, and both are truthy.
\<close>

definition registryColumn :: "string \<Rightarrow> column" where
  "registryColumn n = \<lparr>column.name = n, type = None\<rparr>"

definition SCHEMA_REGISTRY :: "(string \<times> column list) list" where
  "SCHEMA_REGISTRY =
     [(''student'', map registryColumn [''emp_id'', ''emp_name'', ''departmenit_id'']),
      (''department'', map registryColumn [''dept_id'', ''dept_name'', ''location'']),
      (''courses'', map registryColumn [''course_id'', ''course_title'', ''credits''])]"

text \<open>
  The answer of the execution service to one request: the request fails, or it returns
  a status and, possibly, rows.
\<close>

definition inheritedProperties :: "string list" where
  "inheritedProperties = [''constructor'', ''__proto__'']"

datatype reply = Rejected | Reply string "string list list option"

text \<open>The branch of \<open>handleEditorChange\<close> that runs when a table reference is found.\<close>

definition onTableMatch :: "(string \<Rightarrow> reply) \<Rightarrow> rmatch \<Rightarrow> app_state \<Rightarrow> js_error + app_state" where
  "onTableMatch post tableMatch st =
     (case groups tableMatch 1 of
        None \<Rightarrow> Inl TypeError
      | Some g \<Rightarrow>
          (let tableName = toLowerCase g;
               st1 = (case map_of SCHEMA_REGISTRY tableName of
                        Some cols \<Rightarrow>
                          st\<lparr>activeSchema :=
                               Some (Table \<lparr>schema.name = tableName, columns = cols\<rparr>)\<rparr>
                      | None \<Rightarrow>
                          if tableName \<in> set inheritedProperties
                          then st\<lparr>activeSchema := Some (Inherited tableName)\<rparr>
                          else st)
           in Inr (case post (''SELECT * FROM '' @ tableName @ '' LIMIT 5;'') of
                     Rejected \<Rightarrow> st1
                   | Reply status rows \<Rightarrow>
                       if status = ''success''
                       then st1\<lparr>existingData := (case rows of None \<Rightarrow> [] | Some d \<Rightarrow> d)\<rparr>
                       else st1)))"

text \<open>
  \<open>handleEditorChange\<close>: \<open>value\<close> may be undefined (\<open>None\<close>); \<open>post\<close> answers the
  request for the existing rows.
\<close>

definition handleEditorChange ::
    "(string \<Rightarrow> reply) \<Rightarrow> string option \<Rightarrow> app_state \<Rightarrow> js_error + app_state" where
  "handleEditorChange post value st =
     (let val = (case value of None \<Rightarrow> [] | Some v \<Rightarrow> v);
          st0 = st\<lparr>query := val\<rparr>
      in case (case detectTable val of
                 None \<Rightarrow> Inr st0
               | Some tableMatch \<Rightarrow> onTableMatch post tableMatch st0) of
           Inl e \<Rightarrow> Inl e
         | Inr st1 \<Rightarrow>
             (case parseSchema val of
                Inl e \<Rightarrow> Inl e
              | Inr detectedSchema \<Rightarrow>
                  (let st2 = (case detectedSchema of
                                None \<Rightarrow> st1
                              | Some d \<Rightarrow> st1\<lparr>activeSchema := Some (Table d)\<rparr>)
                   in case parseAllInsertRows val of
                        Inl e \<Rightarrow> Inl e
                      | Inr rows \<Rightarrow> Inr (st2\<lparr>multiRowPreview := rows\<rparr>))))"


section \<open>Notions used in the statements\<close>

text \<open>The first result that a function yields along a list.\<close>

fun firstSome :: "('a \<Rightarrow> 'b option) \<Rightarrow> 'a list \<Rightarrow> 'b option" where
  "firstSome f [] = None"
| "firstSome f (x # xs) = (case f x of Some y \<Rightarrow> Some y | None \<Rightarrow> firstSome f xs)"

text \<open>The text from each start position on, from left to right, the end included.\<close>

fun tails :: "string \<Rightarrow> string list" where
  "tails [] = [[]]"
| "tails (c # cs) = (c # cs) # tails cs"

text \<open>The groups that take part in every match of a pattern.\<close>

fun sureGroups :: "regex \<Rightarrow> nat set" where
  "sureGroups (Seq a b) = sureGroups a \<union> sureGroups b"
| "sureGroups (Alt a b) = sureGroups a \<inter> sureGroups b"
| "sureGroups (Grp n a) = insert n (sureGroups a)"
| "sureGroups r = {}"

text \<open>The pieces of a split put together again, with the separator between them.\<close>

fun joinWith :: "char \<Rightarrow> string list \<Rightarrow> string" where
  "joinWith d [] = []"
| "joinWith d [x] = x"
| "joinWith d (x # y # ys) = x @ d # joinWith d (y # ys)"

text \<open>
  Selection by priority, in the words of the specification: the patterns are tried in
  their fixed order, and the first pattern that matches anywhere in the text wins.
\<close>

definition detectTable_priorityFirst :: "string \<Rightarrow> rmatch option" where
  "detectTable_priorityFirst val =
     firstSome (\<lambda>p. exec True (Seq p referenceTail) val) shapePatterns"

text \<open>
  Stripping of quotes, in the words of the specification: a single pair of surrounding
  quote characters is removed if present, and quotes elsewhere in the cell stay.
\<close>

definition stripQuotePair_spec :: "string \<Rightarrow> string" where
  "stripQuotePair_spec s =
     (if 2 \<le> length s \<and> hd s = last s \<and> hd s \<in> {CHR 0x27, CHR 0x22}
      then butlast (tl s) else s)"


section \<open>Properties\<close>

subsection \<open>Case mapping\<close>

lemma letters_length: "length lowerLetters = length upperLetters"
  by (simp add: lowerLetters_def upperLetters_def)

lemma toUpperChar_other: "c \<notin> set lowerLetters \<Longrightarrow> toUpperChar c = c"
proof -
  assume "c \<notin> set lowerLetters"
  then have "map_of (zip lowerLetters upperLetters) c = None"
    using map_of_zip_is_None [OF letters_length, of c] by simp
  then show ?thesis by (simp add: toUpperChar_def)
qed

lemma toUpperChar_letter: "c \<in> set lowerLetters \<Longrightarrow> toUpperChar c \<in> set upperLetters"
proof -
  assume "c \<in> set lowerLetters"
  then obtain u where u: "map_of (zip lowerLetters upperLetters) c = Some u"
    using map_of_zip_is_Some [OF letters_length, of c] by blast
  then have "u \<in> set upperLetters"
    by (meson map_of_SomeD set_zip_rightD)
  with u show ?thesis by (simp add: toUpperChar_def)
qed

lemma toUpperChar_eq_other:
  assumes "toUpperChar c = d" and "d \<notin> set upperLetters"
  shows "c = d"
proof (cases "c \<in> set lowerLetters")
  case True
  then show ?thesis using toUpperChar_letter [of c] assms by simp
next
  case False
  then show ?thesis using toUpperChar_other [of c] assms by simp
qed

lemma canon_eq_other:
  assumes "canon i c = d" and "d \<notin> set upperLetters"
  shows "c = d"
  using assms toUpperChar_eq_other [of c d] by (simp add: canon_def split: if_splits)

lemma paren_no_letter: "CHR '')'' \<notin> set upperLetters" "CHR '')'' \<notin> set lowerLetters"
  by (simp_all add: upperLetters_def lowerLetters_def)

lemma canon_paren: "canon i c = CHR '')'' \<longleftrightarrow> c = CHR '')''"
  using canon_eq_other [of i c "CHR '')''"] paren_no_letter toUpperChar_other [of "CHR '')''"]
  by (auto simp: canon_def)

subsection \<open>The matcher\<close>

lemma litMatch_Some:
  "litMatch i l s = Some rest \<longleftrightarrow>
     (\<exists>w. s = w @ rest \<and> map (canon i) w = map (canon i) l)"
proof (induction i l s rule: litMatch.induct)
  case (1 i s)
  then show ?case by simp
next
  case (2 i p ps)
  then show ?case by simp
next
  case (3 i p ps c cs)
  show ?case
  proof (cases "canon i p = canon i c")
    case True
    show ?thesis
    proof
      assume "litMatch i (p # ps) (c # cs) = Some rest"
      with True 3 obtain w where "cs = w @ rest" "map (canon i) w = map (canon i) ps"
        by auto
      with True have "c # cs = (c # w) @ rest \<and> map (canon i) (c # w) = map (canon i) (p # ps)"
        by simp
      then show "\<exists>w. c # cs = w @ rest \<and> map (canon i) w = map (canon i) (p # ps)"
        by blast
    next
      assume "\<exists>w. c # cs = w @ rest \<and> map (canon i) w = map (canon i) (p # ps)"
      then obtain w where w: "c # cs = w @ rest" "map (canon i) w = map (canon i) (p # ps)"
        by blast
      then obtain w' where "w = c # w'" "cs = w' @ rest" "map (canon i) w' = map (canon i) ps"
        by (cases w) auto
      with True 3 show "litMatch i (p # ps) (c # cs) = Some rest"
        by auto
    qed
  next
    case False
    then show ?thesis by (auto simp: Cons_eq_map_conv Cons_eq_append_conv)
  qed
qed

lemma starG_iff:
  "rest \<in> set (starG p s) \<longleftrightarrow> (\<exists>w. s = w @ rest \<and> (\<forall>x\<in>set w. p x))"
proof (induction s)
  case Nil
  then show ?case by auto
next
  case (Cons c cs)
  show ?case
  proof (cases "p c")
    case True
    show ?thesis
    proof
      assume "rest \<in> set (starG p (c # cs))"
      with True have "rest \<in> set (starG p cs) \<or> rest = c # cs" by auto
      then show "\<exists>w. c # cs = w @ rest \<and> (\<forall>x\<in>set w. p x)"
      proof
        assume "rest \<in> set (starG p cs)"
        with Cons obtain w where "cs = w @ rest" "\<forall>x\<in>set w. p x" by auto
        with True have "c # cs = (c # w) @ rest \<and> (\<forall>x\<in>set (c # w). p x)" by simp
        then show ?thesis by blast
      next
        assume "rest = c # cs"
        then have "c # cs = [] @ rest \<and> (\<forall>x\<in>set []. p x)" by simp
        then show ?thesis by blast
      qed
    next
      assume "\<exists>w. c # cs = w @ rest \<and> (\<forall>x\<in>set w. p x)"
      then obtain w where w: "c # cs = w @ rest" "\<forall>x\<in>set w. p x" by blast
      show "rest \<in> set (starG p (c # cs))"
      proof (cases w)
        case Nil
        with w have "rest = c # cs" by simp
        with True show ?thesis by simp
      next
        case (Cons a w')
        with w have "cs = w' @ rest" "\<forall>x\<in>set w'. p x" by auto
        with Cons.IH have "rest \<in> set (starG p cs)" by blast
        with True show ?thesis by simp
      qed
    qed
  next
    case False
    then show ?thesis by (auto simp: Cons_eq_append_conv)
  qed
qed

lemma starL_set: "set (starL p s) = set (starG p s)"
  by (induction s) auto

lemma plusG_iff:
  "rest \<in> set (plusG p s) \<longleftrightarrow> (\<exists>w. s = w @ rest \<and> w \<noteq> [] \<and> (\<forall>x\<in>set w. p x))"
proof (cases s)
  case Nil
  then show ?thesis by simp
next
  case (Cons c cs)
  show ?thesis
  proof
    assume "rest \<in> set (plusG p s)"
    with Cons have "p c" and "rest \<in> set (starG p cs)" by (auto split: if_splits)
    then obtain w where "cs = w @ rest" "\<forall>x\<in>set w. p x" by (auto simp: starG_iff)
    with Cons \<open>p c\<close> have "s = (c # w) @ rest \<and> c # w \<noteq> [] \<and> (\<forall>x\<in>set (c # w). p x)" by simp
    then show "\<exists>w. s = w @ rest \<and> w \<noteq> [] \<and> (\<forall>x\<in>set w. p x)" by blast
  next
    assume "\<exists>w. s = w @ rest \<and> w \<noteq> [] \<and> (\<forall>x\<in>set w. p x)"
    then obtain w where w: "s = w @ rest" "w \<noteq> []" "\<forall>x\<in>set w. p x" by blast
    then obtain a w' where "w = a # w'" by (cases w) auto
    with w Cons have "a = c" "cs = w' @ rest" "p c" "\<forall>x\<in>set w'. p x" by auto
    then have "rest \<in> set (starG p cs)" by (auto simp: starG_iff)
    with Cons \<open>p c\<close> show "rest \<in> set (plusG p s)" by simp
  qed
qed

lemma ms_suffix:
  "(rest, c') \<in> set (ms i r s c) \<Longrightarrow> \<exists>w. s = w @ rest"
proof (induction r arbitrary: s c rest c')
  case (Lit l)
  then have "litMatch i l s = Some rest" by (auto split: option.splits)
  then show ?case unfolding litMatch_Some by blast
next
  case (Cls k)
  then show ?case by (cases s) (auto split: if_splits)
next
  case (Star k)
  then show ?case by (auto simp: starG_iff)
next
  case (StarLazy k)
  then have "rest \<in> set (starL (inClass i k) s)" by auto
  then show ?case by (auto simp: starL_set starG_iff)
next
  case (Plus k)
  then show ?case by (auto simp: plusG_iff)
next
  case (Seq a b)
  from Seq.prems obtain mid c1 where
    "(mid, c1) \<in> set (ms i a s c)" "(rest, c') \<in> set (ms i b mid c1)"
    by auto
  with Seq.IH obtain w1 w2 where "s = w1 @ mid" "mid = w2 @ rest" by blast
  then have "s = (w1 @ w2) @ rest" by simp
  then show ?case by blast
next
  case (Alt a b)
  then show ?case by auto
next
  case (Grp n a)
  then show ?case by auto
next
  case (NotAhead a)
  then show ?case by (auto split: if_splits)
next
  case Eot
  then show ?case by (auto split: if_splits)
qed

lemma ms_dom:
  "(rest, c') \<in> set (ms i r s c) \<Longrightarrow> dom c \<union> sureGroups r \<subseteq> dom c'"
proof (induction r arbitrary: s c rest c')
  case (Seq a b)
  from Seq.prems obtain mid c1 where
    m: "(mid, c1) \<in> set (ms i a s c)" "(rest, c') \<in> set (ms i b mid c1)"
    by auto
  from Seq.IH(1) [OF m(1)] Seq.IH(2) [OF m(2)] show ?case by (simp add: subset_iff)
next
  case (Alt a b)
  from Alt.prems have "(rest, c') \<in> set (ms i a s c) \<or> (rest, c') \<in> set (ms i b s c)"
    by auto
  then show ?case using Alt.IH by fastforce
next
  case (Grp n a)
  from Grp.prems obtain c1 where
    m: "(rest, c1) \<in> set (ms i a s c)" "c' = c1(n \<mapsto> take (length s - length rest) s)"
    by auto
  from Grp.IH [OF m(1)] m(2) show ?case by auto
qed (auto split: option.splits list.splits if_splits)

lemma matchAt_Some:
  assumes "matchAt i r s = Some m"
  shows "\<exists>rest tl. ms i r s Map.empty = (rest, groups m) # tl \<and> s = whole m @ rest"
proof -
  from assms obtain rest caps tl where
    h: "ms i r s Map.empty = (rest, caps) # tl"
       "m = \<lparr>whole = take (length s - length rest) s, groups = caps\<rparr>"
    by (auto simp: matchAt_def split: list.splits)
  then have "(rest, caps) \<in> set (ms i r s Map.empty)" by simp
  then obtain w where "s = w @ rest" using ms_suffix by blast
  with h show ?thesis by simp
qed

lemma matchAt_groups:
  assumes "matchAt i r s = Some m"
  shows "sureGroups r \<subseteq> dom (groups m)"
proof -
  from matchAt_Some [OF assms] obtain rest tl where
    "ms i r s Map.empty = (rest, groups m) # tl" by blast
  then have "(rest, groups m) \<in> set (ms i r s Map.empty)" by simp
  from ms_dom [OF this] show ?thesis by simp
qed

lemma matchAllFrom_matchAt:
  "m \<in> set (matchAllFrom i r k s) \<Longrightarrow> \<exists>s'. matchAt i r s' = Some m"
proof (induction s arbitrary: k)
  case Nil
  show ?case
  proof (cases "matchAt i r []")
    case None
    with Nil show ?thesis by (cases k) simp_all
  next
    case (Some m')
    with Nil have "m = m'" by (cases k) simp_all
    with Some show ?thesis by blast
  qed
next
  case (Cons c cs)
  show ?case
  proof (cases k)
    case (Suc k')
    with Cons show ?thesis by simp
  next
    case 0
    show ?thesis
    proof (cases "matchAt i r (c # cs)")
      case None
      with 0 Cons show ?thesis by simp
    next
      case (Some m')
      with 0 Cons.prems have "m = m' \<or> m \<in> set (matchAllFrom i r (length (whole m') - 1) cs)"
        by simp
      then show ?thesis using Some Cons.IH by blast
    qed
  qed
qed

lemma matchAll_groups:
  assumes "m \<in> set (matchAll i r s)"
  shows "sureGroups r \<subseteq> dom (groups m)"
proof -
  from assms obtain s' where "matchAt i r s' = Some m"
    unfolding matchAll_def using matchAllFrom_matchAt by blast
  then show ?thesis by (rule matchAt_groups)
qed

lemma mapE_total:
  "(\<And>x. x \<in> set xs \<Longrightarrow> f x = Inr (g x)) \<Longrightarrow> mapE f xs = Inr (map g xs)"
  by (induction xs) auto

lemma matchAt_Cls:
  "matchAt i (Cls k) s =
     (case s of [] \<Rightarrow> None
      | c # cs \<Rightarrow> if inClass i k c then Some \<lparr>whole = [c], groups = Map.empty\<rparr> else None)"
  by (auto simp: matchAt_def split: list.splits)

lemma replaceAllFrom_Cls:
  "replaceAllFrom i (Cls k) [] 0 s = filter (\<lambda>c. \<not> inClass i k c) s"
  by (induction s) (auto simp: matchAt_Cls)

lemma cleanCell_filter:
  "cleanCell v = filter (\<lambda>c. c \<noteq> CHR 0x27 \<and> c \<noteq> CHR 0x22) (trim v)"
proof -
  have "\<And>c. inClass False (OneOf [CHR 0x27, CHR 0x22]) c = (c = CHR 0x27 \<or> c = CHR 0x22)"
    by (simp add: canon_def)
  then show ?thesis
    by (simp add: cleanCell_def replaceAll_def quotePattern_def replaceAllFrom_Cls)
qed

lemma values_group1:
  assumes "m \<in> set (matchAll True valuesPattern text)"
  shows "\<exists>content. groups m 1 = Some content"
proof -
  have "1 \<in> sureGroups valuesPattern" by (simp add: valuesPattern_def)
  with matchAll_groups [OF assms] show ?thesis by blast
qed

lemma parseAllInsertRows_total:
  "parseAllInsertRows text =
     Inr (map (\<lambda>m. map cleanCell (splitOn (CHR '','') (the (groups m 1))))
            (matchAll True valuesPattern text))"
  unfolding parseAllInsertRows_def parseAllInsertRowsWith_def
proof (rule mapE_total)
  fix m assume "m \<in> set (matchAll True valuesPattern text)"
  then obtain content where "groups m 1 = Some content" using values_group1 by blast
  then show "rowOfMatch m = Inr (map cleanCell (splitOn (CHR '','') (the (groups m 1))))"
    by (simp add: rowOfMatch_def)
qed

lemma exec_tails: "exec i r s = firstSome (matchAt i r) (tails s)"
  by (induction s) (auto split: option.splits)

lemma ms_Seq_alts:
  "ms i (Seq (alts ps) t) s c = concat (map (\<lambda>p. ms i (Seq p t) s c) ps)"
  by (induction ps rule: alts.induct) simp_all

lemma matchAt_concat:
  "(case concat (map f ps) of [] \<Rightarrow> None | (rest, caps) # _ \<Rightarrow> Some (g rest caps)) =
   firstSome (\<lambda>p. case f p of [] \<Rightarrow> None | (rest, caps) # _ \<Rightarrow> Some (g rest caps)) ps"
proof (induction ps)
  case Nil
  then show ?case by simp
next
  case (Cons p ps)
  then show ?case by (cases "f p") (auto split: list.splits)
qed

lemma matchAt_Seq_alts:
  "matchAt i (Seq (alts ps) t) s = firstSome (\<lambda>p. matchAt i (Seq p t) s) ps"
  unfolding matchAt_def ms_Seq_alts by (rule matchAt_concat)

subsection \<open>The order of the matches\<close>

lemma ms_Lit_iff:
  "(rest, c') \<in> set (ms i (Lit l) s c) \<longleftrightarrow>
     c' = c \<and> (\<exists>w. s = w @ rest \<and> map (canon i) w = map (canon i) l)"
proof -
  have "(rest, c') \<in> set (ms i (Lit l) s c) \<longleftrightarrow> c' = c \<and> litMatch i l s = Some rest"
    by (auto split: option.splits)
  then show ?thesis unfolding litMatch_Some .
qed

lemma ms_Plus_iff:
  "(rest, c') \<in> set (ms i (Plus k) s c) \<longleftrightarrow>
     c' = c \<and> (\<exists>w. s = w @ rest \<and> w \<noteq> [] \<and> (\<forall>x\<in>set w. inClass i k x))"
proof -
  have "(rest, c') \<in> set (ms i (Plus k) s c) \<longleftrightarrow> c' = c \<and> rest \<in> set (plusG (inClass i k) s)"
    by auto
  then show ?thesis unfolding plusG_iff .
qed

lemma ms_Star_iff:
  "(rest, c') \<in> set (ms i (Star k) s c) \<longleftrightarrow>
     c' = c \<and> (\<exists>w. s = w @ rest \<and> (\<forall>x\<in>set w. inClass i k x))"
proof -
  have "(rest, c') \<in> set (ms i (Star k) s c) \<longleftrightarrow> c' = c \<and> rest \<in> set (starG (inClass i k) s)"
    by auto
  then show ?thesis unfolding starG_iff .
qed

lemma ms_Grp_iff:
  "(rest, c') \<in> set (ms i (Grp n a) s c) \<longleftrightarrow>
     (\<exists>c1. (rest, c1) \<in> set (ms i a s c) \<and> c' = c1(n \<mapsto> take (length s - length rest) s))"
proof
  assume "(rest, c') \<in> set (ms i (Grp n a) s c)"
  then obtain x where x: "x \<in> set (ms i a s c)"
    "(rest, c') = (case x of (r, caps') \<Rightarrow> (r, caps'(n \<mapsto> take (length s - length r) s)))"
    by (auto simp: image_iff)
  obtain r caps' where rc: "x = (r, caps')" by (cases x)
  with x have "(r, caps') \<in> set (ms i a s c)" "rest = r"
    "c' = caps'(n \<mapsto> take (length s - length r) s)" by simp_all
  then show "\<exists>c1. (rest, c1) \<in> set (ms i a s c) \<and> c' = c1(n \<mapsto> take (length s - length rest) s)"
    by blast
next
  assume "\<exists>c1. (rest, c1) \<in> set (ms i a s c) \<and> c' = c1(n \<mapsto> take (length s - length rest) s)"
  then obtain c1 where "(rest, c1) \<in> set (ms i a s c)"
    "c' = c1(n \<mapsto> take (length s - length rest) s)" by blast
  then show "(rest, c') \<in> set (ms i (Grp n a) s c)"
    by (auto simp: image_iff intro!: bexI [of _ "(rest, c1)"])
qed

lemma ms_Grp_Plus:
  assumes "(rest, c') \<in> set (ms i (Grp n (Plus k)) s c)"
  shows "\<exists>w. s = w @ rest \<and> w \<noteq> [] \<and> (\<forall>x\<in>set w. inClass i k x) \<and> c' = c(n \<mapsto> w)"
proof -
  from assms obtain c1 where
    m: "(rest, c1) \<in> set (ms i (Plus k) s c)" "c' = c1(n \<mapsto> take (length s - length rest) s)"
    unfolding ms_Grp_iff by blast
  from m(1) obtain w where w: "c1 = c" "s = w @ rest" "w \<noteq> []" "\<forall>x\<in>set w. inClass i k x"
    unfolding ms_Plus_iff by blast
  with m(2) have "c' = c(n \<mapsto> w)" by simp
  with w show ?thesis by blast
qed

lemma inClass_AnyChar: "inClass i AnyChar = (\<lambda>c. True)"
  by (rule ext) simp

lemma concat_map_hd:
  "concat (map f xs) = y # ys \<Longrightarrow> \<exists>x\<in>set xs. \<exists>zs. f x = y # zs"
proof (induction xs)
  case Nil
  then show ?case by simp
next
  case (Cons x xs)
  then show ?case by (cases "f x") auto
qed

lemma ms_Seq_hd:
  assumes "ms i (Seq a b) s c = y # ys"
  shows "\<exists>mid c1 zs. (mid, c1) \<in> set (ms i a s c) \<and> ms i b mid c1 = y # zs"
proof -
  from assms have "concat (map (\<lambda>(rest, caps'). ms i b rest caps') (ms i a s c)) = y # ys"
    by simp
  from concat_map_hd [OF this] show ?thesis by auto
qed

lemma starG_all: "starG (\<lambda>c. True) s = rev (tails s)"
  by (induction s) simp_all

lemma tails_suffix: "t \<in> set (tails (u @ t))"
  by (induction u) (simp_all, cases t, simp_all)

lemma concat_map_Nil: "concat (map F xs) = [] \<Longrightarrow> v \<in> set xs \<Longrightarrow> F v = []"
  by (induction xs) auto

lemma first_in_rev_tails:
  "concat (map F (rev (tails s))) = y # ys \<Longrightarrow>
     \<exists>pre t zs. s = pre @ t \<and> F t = y # zs \<and> (\<forall>u v. t = u @ v \<and> u \<noteq> [] \<longrightarrow> F v = [])"
proof (induction s arbitrary: ys)
  case Nil
  then have "F [] = y # ys" by simp
  then show ?case by (intro exI [of _ "[]"] exI [of _ ys]) simp
next
  case (Cons c cs)
  show ?case
  proof (cases "concat (map F (rev (tails cs)))")
    case Nil
    with Cons.prems have f: "F (c # cs) = y # ys" by simp
    have g: "\<forall>u v. c # cs = u @ v \<and> u \<noteq> [] \<longrightarrow> F v = []"
    proof (intro allI impI)
      fix u v assume uv: "c # cs = u @ v \<and> u \<noteq> []"
      then obtain u' where "cs = u' @ v" by (cases u) auto
      then have "v \<in> set (rev (tails cs))" using tails_suffix [of v u'] by simp
      with Nil show "F v = []" by (rule concat_map_Nil)
    qed
    show ?thesis
      apply (rule exI [of _ "[]"])
      apply (rule exI [of _ "c # cs"])
      apply (rule exI [of _ ys])
      using f g apply simp
      done
  next
    case (Cons y' ys')
    with Cons.prems have "concat (map F (rev (tails cs))) = y # ys'" by simp
    from Cons.IH [OF this] obtain pre t zs where
      h: "cs = pre @ t" "F t = y # zs" "\<forall>u v. t = u @ v \<and> u \<noteq> [] \<longrightarrow> F v = []" by blast
    show ?thesis
      apply (rule exI [of _ "c # pre"])
      apply (rule exI [of _ t])
      apply (rule exI [of _ zs])
      using h apply simp
      done
  qed
qed

lemma litMatch_paren:
  "litMatch True '')'' t = Some rest \<longleftrightarrow> t = CHR '')'' # rest"
proof (cases t)
  case Nil
  then show ?thesis by simp
next
  case (Cons x xs)
  have "canon True (CHR '')'') = CHR '')''"
    using canon_paren [of True "CHR '')''"] by simp
  then show ?thesis using Cons canon_paren [of True x] by auto
qed

text \<open>The greedy group followed by the closing parenthesis ends at the last one.\<close>

lemma greedy_to_last_paren:
  assumes "ms True (Seq (Grp n (Star AnyChar)) (Lit '')'')) s c = (rest, c') # zs"
  shows "\<exists>content. s = content @ '')'' @ rest \<and> CHR '')'' \<notin> set rest \<and> c' = c(n \<mapsto> content)"
proof -
  let ?F = "\<lambda>r. case litMatch True '')'' r of None \<Rightarrow> []
                 | Some rest \<Rightarrow> [(rest, c(n \<mapsto> take (length s - length r) s))]"
  have "ms True (Seq (Grp n (Star AnyChar)) (Lit '')'')) s c = concat (map ?F (rev (tails s)))"
    by (simp add: inClass_AnyChar starG_all comp_def)
  with assms have "concat (map ?F (rev (tails s))) = (rest, c') # zs" by simp
  from first_in_rev_tails [OF this] obtain pre t zs' where
    h: "s = pre @ t" "?F t = (rest, c') # zs'" "\<forall>u v. t = u @ v \<and> u \<noteq> [] \<longrightarrow> ?F v = []"
    by blast
  from h(2) have lm: "litMatch True '')'' t = Some rest" and
    cap: "c' = c(n \<mapsto> take (length s - length t) s)"
    by (auto split: option.splits)
  from lm have t: "t = CHR '')'' # rest" by (simp add: litMatch_paren)
  have "CHR '')'' \<notin> set rest"
  proof
    assume "CHR '')'' \<in> set rest"
    then obtain a b where ab: "rest = a @ CHR '')'' # b" by (meson split_list)
    with t have "t = (CHR '')'' # a) @ (CHR '')'' # b) \<and> CHR '')'' # a \<noteq> []" by simp
    with h(3) have "?F (CHR '')'' # b) = []" by blast
    moreover have "litMatch True '')'' (CHR '')'' # b) = Some b" by (simp add: litMatch_paren)
    ultimately show False by simp
  qed
  moreover from h(1) cap have "c' = c(n \<mapsto> pre)" by simp
  moreover from h(1) t have "s = pre @ '')'' @ rest" by simp
  ultimately show ?thesis by blast
qed

lemma firstSome_Some:
  "firstSome f xs = Some y \<Longrightarrow> \<exists>x\<in>set xs. f x = Some y"
  by (induction xs) (auto split: option.splits)

lemma tails_set: "t \<in> set (tails s) \<Longrightarrow> \<exists>pre. s = pre @ t"
proof (induction s)
  case Nil
  then show ?case by simp
next
  case (Cons c cs)
  then show ?case by (auto intro: exI [of _ "[]"])
qed

lemma exec_Some:
  assumes "exec i r s = Some m"
  shows "\<exists>pre post. s = pre @ post \<and> matchAt i r post = Some m"
proof -
  from assms obtain t where "t \<in> set (tails s)" "matchAt i r t = Some m"
    unfolding exec_tails using firstSome_Some by fastforce
  then show ?thesis using tails_set by blast
qed

subsection \<open>The create-table pattern\<close>

lemma canon_other:
  assumes "d \<notin> set upperLetters" and "d \<notin> set lowerLetters"
  shows "canon i c = canon i d \<longleftrightarrow> c = d"
proof -
  have d: "canon i d = d" using assms(2) toUpperChar_other [of d] by (simp add: canon_def)
  show ?thesis using canon_eq_other [of i c d] assms(1) d by auto
qed

lemma lit_open_paren:
  assumes "map (canon True) w = map (canon True) ''(''"
  shows "w = ''(''"
proof -
  from assms obtain x where x: "w = [x]" "canon True x = canon True (CHR ''('')"
    by (cases w) auto
  have "CHR ''('' \<notin> set upperLetters" "CHR ''('' \<notin> set lowerLetters"
    by (simp_all add: upperLetters_def lowerLetters_def)
  with x(2) have "x = CHR ''(''" using canon_other by blast
  with x(1) show ?thesis by simp
qed

lemma lit_keyword:
  assumes "map (canon True) w = map (canon True) kw"
  shows "toUpperCase w = toUpperCase kw"
proof -
  have "canon True = toUpperChar" by (rule ext) (simp add: canon_def)
  with assms show ?thesis by (simp add: toUpperCase_def)
qed

lemma createPattern_matchAt:
  assumes "matchAt True createPattern s = Some m"
  shows "\<exists>kw1 w1 kw2 w2 nm w3 content post.
      s = kw1 @ w1 @ kw2 @ w2 @ nm @ w3 @ ''('' @ content @ '')'' @ post
      \<and> toUpperCase kw1 = ''CREATE'' \<and> w1 \<noteq> [] \<and> (\<forall>x\<in>set w1. isSpace x)
      \<and> toUpperCase kw2 = ''TABLE'' \<and> w2 \<noteq> [] \<and> (\<forall>x\<in>set w2. isSpace x)
      \<and> nm \<noteq> [] \<and> (\<forall>x\<in>set nm. isWord x) \<and> (\<forall>x\<in>set w3. isSpace x)
      \<and> CHR '')'' \<notin> set post
      \<and> groups m 1 = Some nm \<and> groups m 2 = Some content"
proof -
  let ?R7 = "Seq (Grp 2 (Star AnyChar)) (Lit '')'')"
  let ?R6 = "Seq (Lit ''('') ?R7"
  let ?R5 = "Seq (Star Space) ?R6"
  let ?R4 = "Seq (Grp 1 (Plus Word)) ?R5"
  let ?R3 = "Seq (Plus Space) ?R4"
  let ?R2 = "Seq (Lit ''TABLE'') ?R3"
  let ?R1 = "Seq (Plus Space) ?R2"
  have cp: "createPattern = Seq (Lit ''CREATE'') ?R1" by (simp add: createPattern_def)
  from matchAt_Some [OF assms] obtain post tl where
    h0: "ms True (Seq (Lit ''CREATE'') ?R1) s Map.empty = (post, groups m) # tl"
    unfolding cp by blast
  from ms_Seq_hd [OF h0] obtain s1 c1 z1 where
    a1: "(s1, c1) \<in> set (ms True (Lit ''CREATE'') s Map.empty)" and
    h1: "ms True ?R1 s1 c1 = (post, groups m) # z1" by blast
  from ms_Seq_hd [OF h1] obtain s2 c2 z2 where
    a2: "(s2, c2) \<in> set (ms True (Plus Space) s1 c1)" and
    h2: "ms True ?R2 s2 c2 = (post, groups m) # z2" by blast
  from ms_Seq_hd [OF h2] obtain s3 c3 z3 where
    a3: "(s3, c3) \<in> set (ms True (Lit ''TABLE'') s2 c2)" and
    h3: "ms True ?R3 s3 c3 = (post, groups m) # z3" by blast
  from ms_Seq_hd [OF h3] obtain s4 c4 z4 where
    a4: "(s4, c4) \<in> set (ms True (Plus Space) s3 c3)" and
    h4: "ms True ?R4 s4 c4 = (post, groups m) # z4" by blast
  from ms_Seq_hd [OF h4] obtain s5 c5 z5 where
    a5: "(s5, c5) \<in> set (ms True (Grp 1 (Plus Word)) s4 c4)" and
    h5: "ms True ?R5 s5 c5 = (post, groups m) # z5" by blast
  from ms_Seq_hd [OF h5] obtain s6 c6 z6 where
    a6: "(s6, c6) \<in> set (ms True (Star Space) s5 c5)" and
    h6: "ms True ?R6 s6 c6 = (post, groups m) # z6" by blast
  from ms_Seq_hd [OF h6] obtain s7 c7 z7 where
    a7: "(s7, c7) \<in> set (ms True (Lit ''('') s6 c6)" and
    h7: "ms True ?R7 s7 c7 = (post, groups m) # z7" by blast
  from a1 obtain kw1 where k1: "c1 = Map.empty" "s = kw1 @ s1"
    "map (canon True) kw1 = map (canon True) ''CREATE''"
    unfolding ms_Lit_iff by blast
  from a2 obtain w1 where k2: "c2 = c1" "s1 = w1 @ s2" "w1 \<noteq> []" "\<forall>x\<in>set w1. inClass True Space x"
    unfolding ms_Plus_iff by blast
  from a3 obtain kw2 where k3: "c3 = c2" "s2 = kw2 @ s3"
    "map (canon True) kw2 = map (canon True) ''TABLE''"
    unfolding ms_Lit_iff by blast
  from a4 obtain w2 where k4: "c4 = c3" "s3 = w2 @ s4" "w2 \<noteq> []" "\<forall>x\<in>set w2. inClass True Space x"
    unfolding ms_Plus_iff by blast
  from ms_Grp_Plus [OF a5] obtain nm where k5: "s4 = nm @ s5" "nm \<noteq> []"
    "\<forall>x\<in>set nm. inClass True Word x" "c5 = c4(1 \<mapsto> nm)" by blast
  from a6 obtain w3 where k6: "c6 = c5" "s5 = w3 @ s6" "\<forall>x\<in>set w3. inClass True Space x"
    unfolding ms_Star_iff by blast
  from a7 obtain op where k7: "c7 = c6" "s6 = op @ s7"
    "map (canon True) op = map (canon True) ''(''"
    unfolding ms_Lit_iff by blast
  from greedy_to_last_paren [OF h7] obtain content where
    k8: "s7 = content @ '')'' @ post" "CHR '')'' \<notin> set post" "groups m = c7(2 \<mapsto> content)"
    by blast
  have op: "op = ''(''" using k7(3) by (rule lit_open_paren)
  have u1: "toUpperCase kw1 = ''CREATE''"
  proof -
    have "toUpperCase ''CREATE'' = ''CREATE''" by code_simp
    with lit_keyword [OF k1(3)] show ?thesis by simp
  qed
  have u2: "toUpperCase kw2 = ''TABLE''"
  proof -
    have "toUpperCase ''TABLE'' = ''TABLE''" by code_simp
    with lit_keyword [OF k3(3)] show ?thesis by simp
  qed
  have g: "groups m 1 = Some nm" "groups m 2 = Some content"
    using k8(3) k7(1) k6(1) k5(4) by simp_all
  have s: "s = kw1 @ w1 @ kw2 @ w2 @ nm @ w3 @ ''('' @ content @ '')'' @ post"
    using k1(2) k2(2) k3(2) k4(2) k5(1) k6(2) k7(2) k8(1) op by simp
  have sp: "\<forall>x\<in>set w1. isSpace x" "\<forall>x\<in>set w2. isSpace x" "\<forall>x\<in>set w3. isSpace x"
    "\<forall>x\<in>set nm. isWord x"
    using k2(4) k4(4) k6(3) k5(3) by simp_all
  show ?thesis
    apply (rule exI [of _ kw1], rule exI [of _ w1], rule exI [of _ kw2], rule exI [of _ w2])
    apply (rule exI [of _ nm], rule exI [of _ w3], rule exI [of _ content], rule exI [of _ post])
    using s u1 u2 k2(3) k4(3) k5(2) sp k8(2) g apply blast
    done
qed

subsection \<open>The column separator and the leading token\<close>

lemma columnSeparator_matchAt:
  assumes "matchAt False columnSeparator (c # cs) = Some m"
  shows "c = CHR '','' \<and> whole m = [c]"
proof -
  from matchAt_Some [OF assms] obtain rest tl where
    h: "ms False columnSeparator (c # cs) Map.empty = (rest, groups m) # tl"
       "c # cs = whole m @ rest" by blast
  from ms_Seq_hd [OF h(1) [unfolded columnSeparator_def]] obtain mid c1 zs where
    a: "(mid, c1) \<in> set (ms False (Lit '','') (c # cs) Map.empty)" and
    b: "ms False (NotAhead (Seq (Star (NoneOf ''('')) (Lit '')''))) mid c1 = (rest, groups m) # zs"
    by blast
  from b have "rest = mid" by (simp split: if_splits)
  moreover from a obtain w where "c # cs = w @ mid" "map (canon False) w = map (canon False) '',''"
    unfolding ms_Lit_iff by blast
  moreover then have "w = '',''" by (cases w) (auto simp: canon_def)
  ultimately show ?thesis using h(2) by auto
qed

lemma splitFrom_nonempty: "splitFrom i r acc k s \<noteq> []"
proof (induction s arbitrary: acc k)
  case Nil
  then show ?case by simp
next
  case (Cons c cs)
  then show ?case by (cases k) (auto split: option.splits)
qed

lemma splitFrom_no_comma:
  "CHR '','' \<notin> set s \<Longrightarrow> splitFrom False columnSeparator acc 0 s = [rev acc @ s]"
proof (induction s arbitrary: acc)
  case Nil
  then show ?case by simp
next
  case (Cons c cs)
  then have "matchAt False columnSeparator (c # cs) = None"
    using columnSeparator_matchAt [of c cs] by (cases "matchAt False columnSeparator (c # cs)") auto
  with Cons show ?case by simp
qed

lemma splitFrom_last:
  "CHR '','' \<notin> set later \<Longrightarrow>
     \<exists>f. last (splitFrom False columnSeparator acc 0 (x @ later)) = f @ later"
proof (induction x arbitrary: acc)
  case Nil
  then show ?case by (simp add: splitFrom_no_comma)
next
  case (Cons c x)
  show ?case
  proof (cases "matchAt False columnSeparator (c # x @ later)")
    case None
    with Cons show ?thesis by simp
  next
    case (Some m)
    with columnSeparator_matchAt [OF Some] have
      "splitFrom False columnSeparator acc 0 ((c # x) @ later) =
         rev acc # splitFrom False columnSeparator [] 0 (x @ later)"
      by simp
    with Cons show ?thesis by (simp add: splitFrom_nonempty)
  qed
qed

lemma joinWith_Cons: "ys \<noteq> [] \<Longrightarrow> joinWith d (x # ys) = x @ d # joinWith d ys"
  by (cases ys) simp_all

lemma splitFrom_join:
  "joinWith (CHR '','') (splitFrom False columnSeparator acc 0 s) = rev acc @ s"
proof (induction s arbitrary: acc)
  case Nil
  then show ?case by simp
next
  case (Cons c cs)
  show ?case
  proof (cases "matchAt False columnSeparator (c # cs)")
    case None
    with Cons show ?thesis by simp
  next
    case (Some m)
    with columnSeparator_matchAt [OF Some] have
      "splitFrom False columnSeparator acc 0 (c # cs) =
         rev acc # splitFrom False columnSeparator [] 0 cs" and "c = CHR '',''"
      by simp_all
    with Cons show ?thesis by (simp add: joinWith_Cons splitFrom_nonempty)
  qed
qed

lemma columnSeparator_empty: "matchAt False columnSeparator [] = None"
  by (simp add: matchAt_def columnSeparator_def)

lemma split_columns_last:
  assumes "content = x @ later" and "CHR '','' \<notin> set later"
  shows "\<exists>f. last (split False columnSeparator content) = f @ later"
proof (cases "content = []")
  case True
  with assms show ?thesis by (simp add: split_def columnSeparator_empty)
next
  case False
  with splitFrom_last [OF assms(2), of "[]" x] assms(1) show ?thesis by (simp add: split_def)
qed

lemma split_columns_join:
  "joinWith (CHR '','') (split False columnSeparator content) = content"
  by (simp add: split_def columnSeparator_empty splitFrom_join)

lemma starG_nonempty: "starG p s \<noteq> []"
  by (cases s) simp_all

lemma inClass_Space: "inClass i Space = isSpace"
  by (rule ext) simp

lemma matchAt_spaces:
  "matchAt False (Plus Space) (c # cs) = None \<longleftrightarrow> \<not> isSpace c"
proof (cases "isSpace c")
  case True
  obtain r rs where "starG isSpace cs = r # rs"
    using starG_nonempty [of isSpace cs] by (cases "starG isSpace cs") auto
  with True show ?thesis by (simp add: matchAt_def inClass_Space)
next
  case False
  then show ?thesis by (simp add: matchAt_def)
qed

lemma matchAt_spaces_whole:
  assumes "matchAt False (Plus Space) s = Some m"
  shows "whole m \<noteq> []"
proof -
  from matchAt_Some [OF assms] obtain rest tl where
    h: "ms False (Plus Space) s Map.empty = (rest, groups m) # tl" "s = whole m @ rest" by blast
  then have "(rest, groups m) \<in> set (ms False (Plus Space) s Map.empty)" by simp
  then obtain w where "s = w @ rest" "w \<noteq> []" unfolding ms_Plus_iff by blast
  with h(2) show ?thesis by auto
qed

lemma splitFrom_spaces_hd:
  "hd (splitFrom False (Plus Space) acc 0 s) = rev acc @ takeWhile (\<lambda>c. \<not> isSpace c) s"
proof (induction s arbitrary: acc)
  case Nil
  then show ?case by simp
next
  case (Cons c cs)
  show ?case
  proof (cases "matchAt False (Plus Space) (c # cs)")
    case None
    with Cons matchAt_spaces [of c cs] show ?thesis by simp
  next
    case (Some m)
    with matchAt_spaces [of c cs] have "isSpace c" by auto
    with Some matchAt_spaces_whole [OF Some] show ?thesis by simp
  qed
qed

text \<open>
  The name of a column is its leading token: the trimmed fragment up to its first white
  space.
\<close>

lemma parseColumn_name:
  "column.name (parseColumn col) = takeWhile (\<lambda>c. \<not> isSpace c) (trim col)"
proof (cases "trim col")
  case Nil
  then show ?thesis by (simp add: parseColumn_def split_def matchAt_def Let_def)
next
  case (Cons c cs)
  obtain p ps where ps: "splitFrom False (Plus Space) [] 0 (c # cs) = p # ps"
    using splitFrom_nonempty [of False "Plus Space" "[]" 0 "c # cs"]
    by (cases "splitFrom False (Plus Space) [] 0 (c # cs)") auto
  with splitFrom_spaces_hd [of "[]" "c # cs"] have "p = takeWhile (\<lambda>c. \<not> isSpace c) (c # cs)"
    by simp
  with Cons ps show ?thesis by (simp add: parseColumn_def split_def Let_def)
qed

subsection \<open>The values pattern\<close>

lemma ms_chars:
  assumes "(rest, c') \<in> set (ms i r s c)"
  shows "set rest \<subseteq> set s"
proof -
  from ms_suffix [OF assms] obtain w where "s = w @ rest" by blast
  then show ?thesis by auto
qed

lemma ms_Seq_iff:
  "(rest, c') \<in> set (ms i (Seq a b) s c) \<longleftrightarrow>
     (\<exists>mid c1. (mid, c1) \<in> set (ms i a s c) \<and> (rest, c') \<in> set (ms i b mid c1))"
  by auto

text \<open>
  The values pattern of \<open>parseAllInsertRows\<close> matches only where a closing parenthesis
  follows, so a draft without any closing parenthesis yields no tuple.
\<close>

lemma valuesPattern_needs_paren:
  assumes "matchAt True valuesPattern s = Some m"
  shows "CHR '')'' \<in> set s"
proof -
  let ?R3 = "Seq (Grp 1 (StarLazy AnyChar)) (Lit '')'')"
  let ?R2 = "Seq (Lit ''('') ?R3"
  let ?R1 = "Seq (Star Space) ?R2"
  have vp: "valuesPattern = Seq (Lit ''VALUES'') ?R1" by (simp add: valuesPattern_def)
  from matchAt_Some [OF assms] obtain rest tl where
    "ms True valuesPattern s Map.empty = (rest, groups m) # tl" by blast
  then have "(rest, groups m) \<in> set (ms True (Seq (Lit ''VALUES'') ?R1) s Map.empty)"
    unfolding vp by simp
  then obtain s1 c1 where a1: "(s1, c1) \<in> set (ms True (Lit ''VALUES'') s Map.empty)"
    and h1: "(rest, groups m) \<in> set (ms True ?R1 s1 c1)"
    unfolding ms_Seq_iff [of _ _ _ "Lit ''VALUES''"] by blast
  from h1 obtain s2 c2 where a2: "(s2, c2) \<in> set (ms True (Star Space) s1 c1)"
    and h2: "(rest, groups m) \<in> set (ms True ?R2 s2 c2)"
    unfolding ms_Seq_iff [of _ _ _ "Star Space"] by blast
  from h2 obtain s3 c3 where a3: "(s3, c3) \<in> set (ms True (Lit ''('') s2 c2)"
    and h3: "(rest, groups m) \<in> set (ms True ?R3 s3 c3)"
    unfolding ms_Seq_iff [of _ _ _ "Lit ''(''"] by blast
  from h3 obtain s4 c4 where a4: "(s4, c4) \<in> set (ms True (Grp 1 (StarLazy AnyChar)) s3 c3)"
    and h4: "(rest, groups m) \<in> set (ms True (Lit '')'') s4 c4)"
    unfolding ms_Seq_iff [of _ _ _ "Grp 1 (StarLazy AnyChar)"] by blast
  from h4 have "litMatch True '')'' s4 = Some rest" by (auto split: option.splits)
  then have "CHR '')'' \<in> set s4" by (simp add: litMatch_paren)
  with ms_chars [OF a4] ms_chars [OF a3] ms_chars [OF a2] ms_chars [OF a1]
  show ?thesis by blast
qed

lemma matchAllFrom_none:
  "(\<And>t. t \<in> set (tails s) \<Longrightarrow> matchAt i r t = None) \<Longrightarrow> matchAllFrom i r k s = []"
proof (induction s arbitrary: k)
  case Nil
  then show ?case by simp
next
  case (Cons c cs)
  then show ?case by (cases k) simp_all
qed

lemma parseAllInsertRows_needs_paren:
  assumes "CHR '')'' \<notin> set text"
  shows "parseAllInsertRows text = Inr []"
proof -
  have "matchAt True valuesPattern t = None" if "t \<in> set (tails text)" for t
  proof (cases "matchAt True valuesPattern t")
    case None
    then show ?thesis .
  next
    case (Some m)
    from tails_set [OF that] obtain pre where "text = pre @ t" by blast
    with valuesPattern_needs_paren [OF Some] assms show ?thesis by simp
  qed
  then have "matchAll True valuesPattern text = []"
    unfolding matchAll_def by (rule matchAllFrom_none)
  then show ?thesis by (simp add: parseAllInsertRows_def parseAllInsertRowsWith_def)
qed

subsection \<open>Totality\<close>

lemma exec_groups:
  assumes "exec i r s = Some m"
  shows "sureGroups r \<subseteq> dom (groups m)"
proof -
  from exec_Some [OF assms] obtain post where "matchAt i r post = Some m" by blast
  then show ?thesis by (rule matchAt_groups)
qed

text \<open>The handlers never raise: every group that they read takes part in the match.\<close>

lemma parseSchema_total: "\<exists>r. parseSchema text = Inr r"
proof (cases "exec True createPattern text")
  case None
  then show ?thesis by (simp add: parseSchema_def)
next
  case (Some m)
  have "sureGroups createPattern = {1, 2}" by (auto simp: createPattern_def)
  with exec_groups [OF Some] obtain a b where "groups m 1 = Some a" "groups m 2 = Some b"
    by auto
  with Some show ?thesis by (simp add: parseSchema_def Let_def)
qed

lemma onTableMatch_total:
  assumes "detectTable val = Some m"
  shows "\<exists>st'. onTableMatch post m st = Inr st'"
proof -
  have "1 \<in> sureGroups tableRefPattern" by (simp add: tableRefPattern_def referenceTail_def)
  with exec_groups [OF assms [unfolded detectTable_def]] obtain g where "groups m 1 = Some g"
    by auto
  then show ?thesis by (simp add: onTableMatch_def Let_def)
qed

lemma handleEditorChange_total: "\<exists>st'. handleEditorChange post value st = Inr st'"
proof -
  let ?val = "case value of None \<Rightarrow> [] | Some v \<Rightarrow> v"
  obtain rows where rows: "parseAllInsertRows ?val = Inr rows"
    using parseAllInsertRows_total by blast
  obtain d where d: "parseSchema ?val = Inr d" using parseSchema_total by blast
  show ?thesis
  proof (cases "detectTable ?val")
    case None
    with rows d show ?thesis by (simp add: handleEditorChange_def Let_def)
  next
    case (Some m)
    from onTableMatch_total [OF Some] obtain st1 where
      "onTableMatch post m (st\<lparr>query := ?val\<rparr>) = Inr st1" by blast
    with Some rows d show ?thesis by (simp add: handleEditorChange_def Let_def)
  qed
qed

subsection \<open>Concrete drafts and questions\<close>

text \<open>
  C1.  For the draft \<open>CREATE TABLE t (a INT, b VARCHAR(10))\<close>, \<open>parseSchema\<close> returns the
  table name \<open>t\<close> and exactly the columns \<open>a\<close> (Number) and \<open>b\<close> (Text), in this order.
  The column list is cut into the two fragments \<open>a INT\<close> and \<open> b VARCHAR(10)\<close>: the
  parameterized type stays in one piece, and so does a type whose parameter list holds a
  comma.
\<close>

theorem parseSchema_two_columns:
  "parseSchema ''CREATE TABLE t (a INT, b VARCHAR(10))'' =
     Inr (Some \<lparr>schema.name = ''t'',
                columns = [\<lparr>column.name = ''a'', type = Some ''Number''\<rparr>,
                           \<lparr>column.name = ''b'', type = Some ''Text''\<rparr>]\<rparr>)
   \<and> split False columnSeparator ''a INT, b VARCHAR(10)'' = [''a INT'', '' b VARCHAR(10)'']
   \<and> split False columnSeparator ''a INT, b DECIMAL(10,2)'' = [''a INT'', '' b DECIMAL(10,2)'']"
  by code_simp

text \<open>
  C2.  A values group without its closing parenthesis should be captured to the end of
  the text and returned as a tuple.  On the draft \<open>INSERT INTO t VALUES (1, 2\<close> the
  function \<open>parseAllInsertRows\<close> returns no tuple at all, whereas the copy of the function
  whose pattern also accepts the end of the text returns the tuple of the cells \<open>1\<close> and
  \<open>2\<close>.
\<close>

theorem parseAllInsertRows_unterminated:
  "parseAllInsertRows ''INSERT INTO t VALUES (1, 2'' = Inr []
   \<and> parseAllInsertRowsOpen ''INSERT INTO t VALUES (1, 2'' = Inr [[''1'', ''2'']]"
  by code_simp

text \<open>
  C8.  For the question \<open>what is the average score\<close> the roadmap is the aggregate
  template.  Its first step carries the pattern \<open>/(MAX|MIN|AVG|COUNT|SUM)/i\<close>; the step
  is not done on the draft \<open>SELECT score FROM t\<close> and is done on the draft
  \<open>SELECT AVG(score) FROM t\<close>.
\<close>

theorem average_question_aggregate_step:
  "roadmap (analyzeQuestion (st\<lparr>studentQuestion := ''what is the average score''\<rparr>)) =
     aggregateSteps
   \<and> regex (aggregateSteps ! 0) =
       (True, Grp 1 (alts [Lit ''MAX'', Lit ''MIN'', Lit ''AVG'', Lit ''COUNT'', Lit ''SUM'']))
   \<and> \<not> stepDone (aggregateSteps ! 0) ''SELECT score FROM t''
   \<and> stepDone (aggregateSteps ! 0) ''SELECT AVG(score) FROM t''"
proof -
  have "roadmapFor ''what is the average score'' = aggregateSteps"
    by code_simp
  then have "roadmap (analyzeQuestion (st\<lparr>studentQuestion := ''what is the average score''\<rparr>)) =
      aggregateSteps"
    by (simp add: analyzeQuestion_def)
  moreover have "regex (aggregateSteps ! 0) =
      (True, Grp 1 (alts [Lit ''MAX'', Lit ''MIN'', Lit ''AVG'', Lit ''COUNT'', Lit ''SUM'']))"
    by (simp add: aggregateSteps_def)
  moreover have "\<not> stepDone (aggregateSteps ! 0) ''SELECT score FROM t''"
    by code_simp
  moreover have "stepDone (aggregateSteps ! 0) ''SELECT AVG(score) FROM t''"
    by code_simp
  ultimately show ?thesis by blast
qed


subsection \<open>RowTupleExtractor\<close>

text \<open>
  C6 (as stated).  Each cell would lose a single pair of surrounding quote characters
  only, quotes elsewhere in the cell being preserved.  On the draft
  \<open>INSERT INTO t VALUES ('it's', 1)\<close> the first cell is \<open>its\<close>: the quote inside the
  cell is removed as well, whereas stripping one surrounding pair leaves \<open>it's\<close>.
\<close>

theorem parseAllInsertRows_inner_quote:
  "parseAllInsertRows ''INSERT INTO t VALUES ('it's', 1)'' = Inr [[''its'', ''1'']]
   \<and> map (\<lambda>val. stripQuotePair_spec (trim val)) (splitOn (CHR '','') (CHR 0x27 # ''it's', 1''))
       = [''it's'', ''1'']"
  by code_simp

text \<open>
  C6 (amended).  For every draft, \<open>parseAllInsertRows\<close> never fails; group 1 of every
  match of the values pattern is present, and the tuple of a match is its group content
  split on every comma, each piece trimmed and then freed of every single and double
  quote character, wherever it stands in the piece.  In particular
  \<open>INSERT INTO t VALUES ('x', 1)\<close> yields exactly one tuple, of the cells \<open>x\<close> and \<open>1\<close>.
\<close>

theorem parseAllInsertRows_cells:
  "(\<exists>contents.
      map (\<lambda>m. groups m 1) (matchAll True valuesPattern text) = map Some contents
      \<and> parseAllInsertRows text =
          Inr (map (\<lambda>content.
                      map (\<lambda>val. filter (\<lambda>c. c \<noteq> CHR 0x27 \<and> c \<noteq> CHR 0x22) (trim val))
                        (splitOn (CHR '','') content))
                 contents))
   \<and> parseAllInsertRows ''INSERT INTO t VALUES ('x', 1)'' = Inr [[''x'', ''1'']]"
proof
  let ?ms = "matchAll True valuesPattern text"
  let ?contents = "map (\<lambda>m. the (groups m 1)) ?ms"
  have a: "map (\<lambda>m. groups m 1) ?ms = map Some ?contents"
  proof -
    have "\<And>m. m \<in> set ?ms \<Longrightarrow> groups m 1 = Some (the (groups m 1))"
      using values_group1 by fastforce
    then show ?thesis by (simp add: comp_def)
  qed
  have b: "parseAllInsertRows text =
          Inr (map (\<lambda>content.
                      map (\<lambda>val. filter (\<lambda>c. c \<noteq> CHR 0x27 \<and> c \<noteq> CHR 0x22) (trim val))
                        (splitOn (CHR '','') content))
                 ?contents)"
    by (simp add: parseAllInsertRows_total comp_def cleanCell_filter)
  from a b show "\<exists>contents.
      map (\<lambda>m. groups m 1) ?ms = map Some contents
      \<and> parseAllInsertRows text =
          Inr (map (\<lambda>content.
                      map (\<lambda>val. filter (\<lambda>c. c \<noteq> CHR 0x27 \<and> c \<noteq> CHR 0x22) (trim val))
                        (splitOn (CHR '','') content))
                 contents)"
    by blast
next
  show "parseAllInsertRows ''INSERT INTO t VALUES ('x', 1)'' = Inr [[''x'', ''1'']]"
    by code_simp
qed


subsection \<open>TableReferenceDetector\<close>

text \<open>
  C3 (as stated).  The first pattern in the fixed order that matches anywhere in the
  text would win, even when a later pattern of the order matches at an earlier position.
  On the draft \<open>UPDATE a SET x = 1 FROM b\<close> the detector returns \<open>a\<close>, the identifier of
  the update shape at position 0, whereas selection by priority returns \<open>b\<close>, the
  identifier of the from shape, which stands before the update shape in the order.
\<close>

theorem detectTable_not_priority_first:
  "map_option (\<lambda>m. groups m 1) (detectTable ''UPDATE a SET x = 1 FROM b'') = Some (Some ''a'')
   \<and> map_option (\<lambda>m. groups m 1) (detectTable_priorityFirst ''UPDATE a SET x = 1 FROM b'')
       = Some (Some ''b'')"
  by code_simp

text \<open>
  C3 (amended).  The detector selects by position first: for every draft, the start
  positions are tried from left to right, and at each position the shapes insert-into,
  from, update, table are tried in this fixed order, each followed by white space and a
  run of word characters; the first success is the result.  There is no delete-from
  alternative; a delete-from statement is found through its \<open>FROM\<close>.
\<close>

theorem detectTable_leftmost:
  "detectTable val =
     firstSome (\<lambda>rest. firstSome (\<lambda>p. matchAt True (Seq p referenceTail) rest) shapePatterns)
       (tails val)
   \<and> map_option (\<lambda>m. groups m 1) (detectTable ''DELETE FROM t'') = Some (Some ''t'')"
proof
  show "detectTable val =
     firstSome (\<lambda>rest. firstSome (\<lambda>p. matchAt True (Seq p referenceTail) rest) shapePatterns)
       (tails val)"
  proof -
    have "matchAt True (Seq (alts shapePatterns) referenceTail) =
        (\<lambda>rest. firstSome (\<lambda>p. matchAt True (Seq p referenceTail) rest) shapePatterns)"
      by (rule ext) (rule matchAt_Seq_alts)
    then show ?thesis
      by (simp add: detectTable_def tableRefPattern_def exec_tails)
  qed
  show "map_option (\<lambda>m. groups m 1) (detectTable ''DELETE FROM t'') = Some (Some ''t'')"
    by code_simp
qed


subsection \<open>IntentRoadmapGenerator\<close>

text \<open>
  C4.  For every question whose lower-case form matches a CreateTable trigger
  (\<open>create\<close>, \<open>new table\<close>, \<open>make table\<close>), \<open>analyzeQuestion\<close> sets the roadmap to exactly
  the three steps of the CreateTable template, whatever the other categories produced:
  step 1 with the pattern \<open>/CREATE\s+TABLE/i\<close>, step 2 with \<open>/IF\s+NOT\s+EXISTS/i\<close> and
  step 3 with \<open>/\(.*\)/i\<close>, each with its text.  The question
  \<open>create a new table to count students\<close> also matches the Aggregate trigger, and its
  roadmap is these three steps, not the two steps of the Aggregate template.
\<close>

theorem analyzeQuestion_create_override:
  "(test False createTrigger (toLowerCase (studentQuestion st)) \<longrightarrow>
      roadmap (analyzeQuestion st) =
         [\<lparr>stepId = 1, stepText = ''Use CREATE TABLE [TableName]'',
           regex = (True, cat [Lit ''CREATE'', Plus Space, Lit ''TABLE''])\<rparr>,
          \<lparr>stepId = 2, stepText = ''Pro-tip: Use 'IF NOT EXISTS' to avoid errors'',
           regex = (True, cat [Lit ''IF'', Plus Space, Lit ''NOT'', Plus Space, Lit ''EXISTS''])\<rparr>,
          \<lparr>stepId = 3, stepText = ''Define columns inside ( )'',
           regex = (True, cat [Lit ''('', Star Dot, Lit '')''])\<rparr>])
   \<and> test False aggregateTrigger (toLowerCase ''create a new table to count students'')
   \<and> roadmap (analyzeQuestion (st\<lparr>studentQuestion := ''create a new table to count students''\<rparr>)) =
         [\<lparr>stepId = 1, stepText = ''Use CREATE TABLE [TableName]'',
           regex = (True, cat [Lit ''CREATE'', Plus Space, Lit ''TABLE''])\<rparr>,
          \<lparr>stepId = 2, stepText = ''Pro-tip: Use 'IF NOT EXISTS' to avoid errors'',
           regex = (True, cat [Lit ''IF'', Plus Space, Lit ''NOT'', Plus Space, Lit ''EXISTS''])\<rparr>,
          \<lparr>stepId = 3, stepText = ''Define columns inside ( )'',
           regex = (True, cat [Lit ''('', Star Dot, Lit '')''])\<rparr>]
   \<and> length (roadmap (analyzeQuestion
         (st\<lparr>studentQuestion := ''create a new table to count students''\<rparr>))) = 3
   \<and> roadmap (analyzeQuestion (st\<lparr>studentQuestion := ''create a new table to count students''\<rparr>)) \<noteq>
         [\<lparr>stepId = 1, stepText = ''Use Aggregate Function: SELECT MAX(), MIN(), etc.'',
           regex = (True, Grp 1 (alts [Lit ''MAX'', Lit ''MIN'', Lit ''AVG'', Lit ''COUNT'', Lit ''SUM'']))\<rparr>,
          \<lparr>stepId = 2, stepText = ''Specify Source: FROM [Table]'', regex = (True, Lit ''FROM'')\<rparr>]"
proof -
  let ?template = "[\<lparr>stepId = 1, stepText = ''Use CREATE TABLE [TableName]'',
           regex = (True, cat [Lit ''CREATE'', Plus Space, Lit ''TABLE''])\<rparr>,
          \<lparr>stepId = 2, stepText = ''Pro-tip: Use 'IF NOT EXISTS' to avoid errors'',
           regex = (True, cat [Lit ''IF'', Plus Space, Lit ''NOT'', Plus Space, Lit ''EXISTS''])\<rparr>,
          \<lparr>stepId = 3, stepText = ''Define columns inside ( )'',
           regex = (True, cat [Lit ''('', Star Dot, Lit '')''])\<rparr>]"
  have t: "createSteps = ?template" by (simp add: createSteps_def)
  have g: "test False createTrigger (toLowerCase (studentQuestion st)) \<longrightarrow>
      roadmap (analyzeQuestion st) = ?template"
    by (simp add: analyzeQuestion_def roadmapFor_def Let_def t)
  have a: "test False aggregateTrigger (toLowerCase ''create a new table to count students'')"
    by code_simp
  have "roadmapFor ''create a new table to count students'' = createSteps" by code_simp
  then have r: "roadmap (analyzeQuestion
      (st\<lparr>studentQuestion := ''create a new table to count students''\<rparr>)) = ?template"
    by (simp add: analyzeQuestion_def t)
  have l: "length ?template = 3" by simp
  have n: "length ?template \<noteq> length
         [\<lparr>stepId = 1, stepText = ''Use Aggregate Function: SELECT MAX(), MIN(), etc.'',
           regex = (True, Grp 1 (alts [Lit ''MAX'', Lit ''MIN'', Lit ''AVG'', Lit ''COUNT'', Lit ''SUM'']))\<rparr>,
          \<lparr>stepId = 2, stepText = ''Specify Source: FROM [Table]'', regex = (True, Lit ''FROM'')\<rparr>]"
    by simp
  from g a r l n show ?thesis by auto
qed

theorem analyzeQuestion_create_override_witness:
  "test False createTrigger (toLowerCase ''make table of counts'')
   \<and> test False aggregateTrigger (toLowerCase ''make table of counts'')
   \<and> roadmap (analyzeQuestion
        \<lparr>query = [], existingData = [], multiRowPreview = [], activeSchema = None,
         studentQuestion = ''make table of counts'', roadmap = []\<rparr>) =
         [\<lparr>stepId = 1, stepText = ''Use CREATE TABLE [TableName]'',
           regex = (True, cat [Lit ''CREATE'', Plus Space, Lit ''TABLE''])\<rparr>,
          \<lparr>stepId = 2, stepText = ''Pro-tip: Use 'IF NOT EXISTS' to avoid errors'',
           regex = (True, cat [Lit ''IF'', Plus Space, Lit ''NOT'', Plus Space, Lit ''EXISTS''])\<rparr>,
          \<lparr>stepId = 3, stepText = ''Define columns inside ( )'',
           regex = (True, cat [Lit ''('', Star Dot, Lit '')''])\<rparr>]"
proof -
  have a: "test False createTrigger (toLowerCase ''make table of counts'')" by code_simp
  have b: "test False aggregateTrigger (toLowerCase ''make table of counts'')" by code_simp
  from analyzeQuestion_create_override [of
      "\<lparr>query = [], existingData = [], multiRowPreview = [], activeSchema = None,
         studentQuestion = ''make table of counts'', roadmap = []\<rparr>"] a
  have "roadmap (analyzeQuestion
        \<lparr>query = [], existingData = [], multiRowPreview = [], activeSchema = None,
         studentQuestion = ''make table of counts'', roadmap = []\<rparr>) =
         [\<lparr>stepId = 1, stepText = ''Use CREATE TABLE [TableName]'',
           regex = (True, cat [Lit ''CREATE'', Plus Space, Lit ''TABLE''])\<rparr>,
          \<lparr>stepId = 2, stepText = ''Pro-tip: Use 'IF NOT EXISTS' to avoid errors'',
           regex = (True, cat [Lit ''IF'', Plus Space, Lit ''NOT'', Plus Space, Lit ''EXISTS''])\<rparr>,
          \<lparr>stepId = 3, stepText = ''Define columns inside ( )'',
           regex = (True, cat [Lit ''('', Star Dot, Lit '')''])\<rparr>]"
    by simp
  with a b show ?thesis by blast
qed


subsection \<open>SchemaModelBuilder\<close>

text \<open>
  C5.  For every draft on which \<open>parseSchema\<close> returns a schema, no returned column has
  an empty name or a name whose upper-case form is \<open>PRIMARY\<close>, \<open>FOREIGN\<close>, \<open>CONSTRAINT\<close>
  or \<open>KEY\<close>: the columns are those of the fragments, in their order, whose leading token
  is not empty and is none of these keywords, so such a fragment is dropped wherever it
  stands among the others.
\<close>

theorem parseSchema_no_constraint_names:
  assumes "parseSchema text = Inr (Some sch)"
  shows "(\<forall>c\<in>set (columns sch).
            column.name c \<noteq> [] \<and> toUpperCase (column.name c) \<notin> set constraintKeywords)
         \<and> (\<exists>fragments.
              columns sch =
                filter (\<lambda>c. column.name c \<noteq> [] \<and> toUpperCase (column.name c) \<notin> set constraintKeywords)
                  (map parseColumn fragments))"
proof -
  from assms obtain content where
    cols: "columns sch = filter keepColumn (map parseColumn (split False columnSeparator content))"
    by (auto simp: parseSchema_def Let_def split: option.splits)
  have k: "keepColumn = (\<lambda>c. column.name c \<noteq> [] \<and> toUpperCase (column.name c) \<notin> set constraintKeywords)"
    by (rule ext) (simp add: keepColumn_def)
  from cols have "\<forall>c\<in>set (columns sch). keepColumn c" by simp
  then have "\<forall>c\<in>set (columns sch).
            column.name c \<noteq> [] \<and> toUpperCase (column.name c) \<notin> set constraintKeywords"
    by (simp add: keepColumn_def)
  moreover from cols k have "\<exists>fragments.
              columns sch =
                filter (\<lambda>c. column.name c \<noteq> [] \<and> toUpperCase (column.name c) \<notin> set constraintKeywords)
                  (map parseColumn fragments)"
    by metis
  ultimately show ?thesis by blast
qed

theorem parseSchema_no_constraint_names_witness:
  "parseSchema ''CREATE TABLE t (primary key (a, b), a INT, Key (a), b TEXT, CONSTRAINT c1 UNIQUE (b))'' =
     Inr (Some \<lparr>schema.name = ''t'',
                columns = [\<lparr>column.name = ''a'', type = Some ''Number''\<rparr>,
                           \<lparr>column.name = ''b'', type = Some ''TEXT''\<rparr>]\<rparr>)
   \<and> toUpperCase ''a'' \<notin> set constraintKeywords
   \<and> toUpperCase ''b'' \<notin> set constraintKeywords"
proof -
  have h: "parseSchema ''CREATE TABLE t (primary key (a, b), a INT, Key (a), b TEXT, CONSTRAINT c1 UNIQUE (b))'' =
     Inr (Some \<lparr>schema.name = ''t'',
                columns = [\<lparr>column.name = ''a'', type = Some ''Number''\<rparr>,
                           \<lparr>column.name = ''b'', type = Some ''TEXT''\<rparr>]\<rparr>)"
    by code_simp
  from parseSchema_no_constraint_names [OF h]
  have "toUpperCase ''a'' \<notin> set constraintKeywords \<and> toUpperCase ''b'' \<notin> set constraintKeywords"
    by simp
  with h show ?thesis by blast
qed

text \<open>
  C10.  In the type inference of \<open>parseSchema\<close> the check for the character markers runs
  after the check for the numeric markers.  So a fragment whose upper-case text contains
  a numeric marker (\<open>INT\<close> or \<open>NUMBER\<close>) and a character marker (\<open>CHAR\<close> or \<open>VARCHAR\<close>)
  has the type \<open>Text\<close>, also when the numeric marker is part of the column name, as for
  the column \<open>internal\<close> of type \<open>CHAR(5)\<close>; a fragment that contains no marker keeps the
  default \<open>TEXT\<close>.
\<close>

theorem parseColumn_type_order:
  "((includesStr (toUpperCase col) ''INT'' \<or> includesStr (toUpperCase col) ''NUMBER'')
      \<and> (includesStr (toUpperCase col) ''VARCHAR'' \<or> includesStr (toUpperCase col) ''CHAR'')
      \<longrightarrow> type (parseColumn col) = Some ''Text'')
   \<and> (\<not> includesStr (toUpperCase col) ''INT'' \<and> \<not> includesStr (toUpperCase col) ''NUMBER''
      \<and> \<not> includesStr (toUpperCase col) ''VARCHAR'' \<and> \<not> includesStr (toUpperCase col) ''CHAR''
      \<longrightarrow> type (parseColumn col) = Some ''TEXT'')
   \<and> parseSchema ''CREATE TABLE t (internal CHAR(5), d DATE)'' =
       Inr (Some \<lparr>schema.name = ''t'',
                  columns = [\<lparr>column.name = ''internal'', type = Some ''Text''\<rparr>,
                             \<lparr>column.name = ''d'', type = Some ''TEXT''\<rparr>]\<rparr>)"
proof (intro conjI)
  show "(includesStr (toUpperCase col) ''INT'' \<or> includesStr (toUpperCase col) ''NUMBER'')
      \<and> (includesStr (toUpperCase col) ''VARCHAR'' \<or> includesStr (toUpperCase col) ''CHAR'')
      \<longrightarrow> type (parseColumn col) = Some ''Text''"
    by (simp add: parseColumn_def Let_def)
  show "\<not> includesStr (toUpperCase col) ''INT'' \<and> \<not> includesStr (toUpperCase col) ''NUMBER''
      \<and> \<not> includesStr (toUpperCase col) ''VARCHAR'' \<and> \<not> includesStr (toUpperCase col) ''CHAR''
      \<longrightarrow> type (parseColumn col) = Some ''TEXT''"
    by (simp add: parseColumn_def Let_def)
  show "parseSchema ''CREATE TABLE t (internal CHAR(5), d DATE)'' =
       Inr (Some \<lparr>schema.name = ''t'',
                  columns = [\<lparr>column.name = ''internal'', type = Some ''Text''\<rparr>,
                             \<lparr>column.name = ''d'', type = Some ''TEXT''\<rparr>]\<rparr>)"
    by code_simp
qed

theorem parseColumn_type_order_witness:
  "includesStr (toUpperCase ''internal CHAR(5)'') ''INT''
   \<and> includesStr (toUpperCase ''internal CHAR(5)'') ''CHAR''
   \<and> type (parseColumn ''internal CHAR(5)'') = Some ''Text''
   \<and> \<not> includesStr (toUpperCase ''d DATE'') ''INT'' \<and> \<not> includesStr (toUpperCase ''d DATE'') ''NUMBER''
   \<and> \<not> includesStr (toUpperCase ''d DATE'') ''VARCHAR'' \<and> \<not> includesStr (toUpperCase ''d DATE'') ''CHAR''
   \<and> type (parseColumn ''d DATE'') = Some ''TEXT''"
proof -
  have a: "includesStr (toUpperCase ''internal CHAR(5)'') ''INT''" by code_simp
  have b: "includesStr (toUpperCase ''internal CHAR(5)'') ''CHAR''" by code_simp
  have c: "\<not> includesStr (toUpperCase ''d DATE'') ''INT''" by code_simp
  have d: "\<not> includesStr (toUpperCase ''d DATE'') ''NUMBER''" by code_simp
  have e: "\<not> includesStr (toUpperCase ''d DATE'') ''VARCHAR''" by code_simp
  have f: "\<not> includesStr (toUpperCase ''d DATE'') ''CHAR''" by code_simp
  from parseColumn_type_order [of "''internal CHAR(5)''"] a b
  have g: "type (parseColumn ''internal CHAR(5)'') = Some ''Text''" by blast
  from parseColumn_type_order [of "''d DATE''"] c d e f
  have h: "type (parseColumn ''d DATE'') = Some ''TEXT''" by blast
  from a b c d e f g h show ?thesis by blast
qed


subsection \<open>The editor handler\<close>

text \<open>
  C7.  For every draft-change event in which the detector finds no table reference and
  \<open>parseSchema\<close> finds no create-table shape, \<open>handleEditorChange\<close> raises no error and
  leaves \<open>activeSchema\<close> as it was; the existing rows stay as well.
\<close>

theorem handleEditorChange_no_match_keeps_schema:
  assumes "detectTable (case value of None \<Rightarrow> [] | Some v \<Rightarrow> v) = None"
    and "parseSchema (case value of None \<Rightarrow> [] | Some v \<Rightarrow> v) = Inr None"
  shows "\<exists>st'. handleEditorChange post value st = Inr st'
           \<and> activeSchema st' = activeSchema st \<and> existingData st' = existingData st"
proof -
  let ?val = "case value of None \<Rightarrow> [] | Some v \<Rightarrow> v"
  obtain rows where rows: "parseAllInsertRows ?val = Inr rows"
    using parseAllInsertRows_total by blast
  from assms rows have
    "handleEditorChange post value st = Inr (st\<lparr>query := ?val, multiRowPreview := rows\<rparr>)"
    by (simp add: handleEditorChange_def Let_def)
  then show ?thesis by simp
qed

theorem handleEditorChange_no_match_keeps_schema_witness:
  "detectTable (case Some ''SELECT 1'' of None \<Rightarrow> [] | Some v \<Rightarrow> v) = None
   \<and> parseSchema (case Some ''SELECT 1'' of None \<Rightarrow> [] | Some v \<Rightarrow> v) = Inr None
   \<and> (\<exists>st'. handleEditorChange (\<lambda>q. Rejected) (Some ''SELECT 1'')
               \<lparr>query = ''SELECT'', existingData = [[''7'', ''Ann'']], multiRowPreview = [],
                activeSchema = Some (Table \<lparr>schema.name = ''student'', columns = []\<rparr>),
                studentQuestion = [], roadmap = []\<rparr> = Inr st'
            \<and> activeSchema st' = Some (Table \<lparr>schema.name = ''student'', columns = []\<rparr>)
            \<and> existingData st' = [[''7'', ''Ann'']])"
proof -
  have a: "detectTable (case Some ''SELECT 1'' of None \<Rightarrow> [] | Some v \<Rightarrow> v) = None"
    by code_simp
  have b: "parseSchema (case Some ''SELECT 1'' of None \<Rightarrow> [] | Some v \<Rightarrow> v) = Inr None"
    by code_simp
  from handleEditorChange_no_match_keeps_schema [OF a b, of "\<lambda>q. Rejected"
      "\<lparr>query = ''SELECT'', existingData = [[''7'', ''Ann'']], multiRowPreview = [],
        activeSchema = Some (Table \<lparr>schema.name = ''student'', columns = []\<rparr>),
        studentQuestion = [], roadmap = []\<rparr>"]
  have "\<exists>st'. handleEditorChange (\<lambda>q. Rejected) (Some ''SELECT 1'')
               \<lparr>query = ''SELECT'', existingData = [[''7'', ''Ann'']], multiRowPreview = [],
                activeSchema = Some (Table \<lparr>schema.name = ''student'', columns = []\<rparr>),
                studentQuestion = [], roadmap = []\<rparr> = Inr st'
            \<and> activeSchema st' = Some (Table \<lparr>schema.name = ''student'', columns = []\<rparr>)
            \<and> existingData st' = [[''7'', ''Ann'']]"
    by simp
  with a b show ?thesis by blast
qed


subsection \<open>The extent of the column list\<close>

text \<open>
  C9 (as stated).  Any later text that contains a closing parenthesis would be absorbed
  into the final column fragment.  On the draft
  \<open>CREATE TABLE t (a INT); INSERT INTO t VALUES (1, 2)\<close> the column list runs to the
  last closing parenthesis, but its last comma is a separator: the fragments are
  \<open>a INT); INSERT INTO t VALUES (1\<close> and \<open> 2\<close>, the final fragment holds nothing of the
  insert statement but its last value, and \<open>2\<close> becomes a second column.
\<close>

theorem parseSchema_later_text_split:
  "parseSchema ''CREATE TABLE t (a INT); INSERT INTO t VALUES (1, 2)'' =
     Inr (Some \<lparr>schema.name = ''t'',
                columns = [\<lparr>column.name = ''a'', type = Some ''Number''\<rparr>,
                           \<lparr>column.name = ''2'', type = Some ''TEXT''\<rparr>]\<rparr>)
   \<and> map_option (\<lambda>m. groups m 2)
        (exec True createPattern ''CREATE TABLE t (a INT); INSERT INTO t VALUES (1, 2)'') =
       Some (Some ''a INT); INSERT INTO t VALUES (1, 2'')
   \<and> split False columnSeparator ''a INT); INSERT INTO t VALUES (1, 2'' =
       [''a INT); INSERT INTO t VALUES (1'', '' 2'']
   \<and> \<not> includesStr (last (split False columnSeparator ''a INT); INSERT INTO t VALUES (1, 2''))
         ''INSERT''"
  by code_simp

text \<open>
  C9 (amended).  For every draft on which \<open>parseSchema\<close> returns a schema, the draft
  reads: some text, \<open>CREATE\<close>, white space, \<open>TABLE\<close>, white space, the table name (a run
  of word characters), optional white space, an opening parenthesis, the column-list
  content, a closing parenthesis, and a rest without any closing parenthesis.  So the
  content runs to the last closing parenthesis of the draft and takes in any later text
  up to there.  Nothing of the content is ignored: the fragments, joined by commas, are
  the content, and every end piece of the content that holds no comma lies wholly in the
  final fragment.
\<close>

theorem parseSchema_greedy_content:
  assumes "parseSchema text = Inr (Some sch)"
  shows "\<exists>pre kw1 w1 kw2 w2 nm w3 content post.
      text = pre @ kw1 @ w1 @ kw2 @ w2 @ nm @ w3 @ ''('' @ content @ '')'' @ post
      \<and> toUpperCase kw1 = ''CREATE'' \<and> w1 \<noteq> [] \<and> (\<forall>x\<in>set w1. isSpace x)
      \<and> toUpperCase kw2 = ''TABLE'' \<and> w2 \<noteq> [] \<and> (\<forall>x\<in>set w2. isSpace x)
      \<and> nm \<noteq> [] \<and> (\<forall>x\<in>set nm. isWord x) \<and> (\<forall>x\<in>set w3. isSpace x)
      \<and> CHR '')'' \<notin> set post
      \<and> schema.name sch = nm
      \<and> columns sch = filter keepColumn (map parseColumn (split False columnSeparator content))
      \<and> joinWith (CHR '','') (split False columnSeparator content) = content
      \<and> (\<forall>x later. content = x @ later \<and> CHR '','' \<notin> set later \<longrightarrow>
            (\<exists>f. last (split False columnSeparator content) = f @ later))"
proof -
  from assms obtain m tableName columnsContent where
    e: "exec True createPattern text = Some m" and
    g: "groups m 1 = Some tableName" "groups m 2 = Some columnsContent" and
    sch: "sch = \<lparr>schema.name = tableName,
                 columns = filter keepColumn
                   (map parseColumn (split False columnSeparator columnsContent))\<rparr>"
    by (auto simp: parseSchema_def Let_def split: option.splits)
  from exec_Some [OF e] obtain pre s where
    p: "text = pre @ s" "matchAt True createPattern s = Some m" by blast
  from createPattern_matchAt [OF p(2)] obtain kw1 w1 kw2 w2 nm w3 content post where
    d: "s = kw1 @ w1 @ kw2 @ w2 @ nm @ w3 @ ''('' @ content @ '')'' @ post"
      "toUpperCase kw1 = ''CREATE''" "w1 \<noteq> []" "\<forall>x\<in>set w1. isSpace x"
      "toUpperCase kw2 = ''TABLE''" "w2 \<noteq> []" "\<forall>x\<in>set w2. isSpace x"
      "nm \<noteq> []" "\<forall>x\<in>set nm. isWord x" "\<forall>x\<in>set w3. isSpace x"
      "CHR '')'' \<notin> set post"
      "groups m 1 = Some nm" "groups m 2 = Some content"
    by blast
  from d(12,13) g have eq: "tableName = nm" "columnsContent = content" by simp_all
  have t: "text = pre @ kw1 @ w1 @ kw2 @ w2 @ nm @ w3 @ ''('' @ content @ '')'' @ post"
    using p(1) d(1) by simp
  have n: "schema.name sch = nm" using sch eq by simp
  have c: "columns sch = filter keepColumn (map parseColumn (split False columnSeparator content))"
    using sch eq by simp
  have j: "joinWith (CHR '','') (split False columnSeparator content) = content"
    by (rule split_columns_join)
  have l: "\<forall>x later. content = x @ later \<and> CHR '','' \<notin> set later \<longrightarrow>
            (\<exists>f. last (split False columnSeparator content) = f @ later)"
    using split_columns_last by blast
  show ?thesis
    apply (rule exI [of _ pre])
    apply (rule exI [of _ kw1], rule exI [of _ w1], rule exI [of _ kw2], rule exI [of _ w2])
    apply (rule exI [of _ nm], rule exI [of _ w3], rule exI [of _ content], rule exI [of _ post])
    apply (intro conjI)
    using t d n c j l apply simp_all
    done
qed

theorem parseSchema_greedy_content_witness:
  "parseSchema ''CREATE TABLE t (a INT); INSERT INTO t VALUES (1)'' =
     Inr (Some \<lparr>schema.name = ''t'', columns = [\<lparr>column.name = ''a'', type = Some ''Number''\<rparr>]\<rparr>)
   \<and> (\<exists>pre kw1 w1 kw2 w2 nm w3 content post.
      ''CREATE TABLE t (a INT); INSERT INTO t VALUES (1)'' =
        pre @ kw1 @ w1 @ kw2 @ w2 @ nm @ w3 @ ''('' @ content @ '')'' @ post
      \<and> toUpperCase kw1 = ''CREATE'' \<and> w1 \<noteq> [] \<and> (\<forall>x\<in>set w1. isSpace x)
      \<and> toUpperCase kw2 = ''TABLE'' \<and> w2 \<noteq> [] \<and> (\<forall>x\<in>set w2. isSpace x)
      \<and> nm \<noteq> [] \<and> (\<forall>x\<in>set nm. isWord x) \<and> (\<forall>x\<in>set w3. isSpace x)
      \<and> CHR '')'' \<notin> set post
      \<and> ''t'' = nm
      \<and> [\<lparr>column.name = ''a'', type = Some ''Number''\<rparr>] =
          filter keepColumn (map parseColumn (split False columnSeparator content))
      \<and> joinWith (CHR '','') (split False columnSeparator content) = content
      \<and> (\<forall>x later. content = x @ later \<and> CHR '','' \<notin> set later \<longrightarrow>
            (\<exists>f. last (split False columnSeparator content) = f @ later)))
   \<and> split False columnSeparator ''a INT); INSERT INTO t VALUES (1'' =
       [''a INT); INSERT INTO t VALUES (1'']"
proof -
  have h: "parseSchema ''CREATE TABLE t (a INT); INSERT INTO t VALUES (1)'' =
     Inr (Some \<lparr>schema.name = ''t'', columns = [\<lparr>column.name = ''a'', type = Some ''Number''\<rparr>]\<rparr>)"
    by code_simp
  have s: "split False columnSeparator ''a INT); INSERT INTO t VALUES (1'' =
       [''a INT); INSERT INTO t VALUES (1'']"
    by code_simp
  from parseSchema_greedy_content [OF h] h s show ?thesis by simp
qed

end
